theory Spec2Isabelle
  imports Main "HOL-Library.Multiset"
begin

text \<open>
  A shallow embedding of the music-trivia game: the catalog client
  (\<^verbatim>\<open>services/musicService.ts\<close>), the challenge generator (the module the component
  imports as \<^verbatim>\<open>./services/geminiService\<close>) and the round controller (the \<^verbatim>\<open>App\<close>
  component). The repository holds a second, older copy of the catalog client and of the
  component; the copies differ from the files modelled here in comments and log texts,
  and the older component lacks the high-score effect, the two ways back from the
  no-samples state and the difficulty buttons. The definitions follow the newer files.
\<close>

section \<open>Data model (types.ts)\<close>

text \<open>
  The interfaces of \<^verbatim>\<open>types.ts\<close> as records and datatypes. A JavaScript string is a
  \<open>string\<close>; an optional field is an \<open>option\<close>. A value is "truthy" in a condition
  when it is present and, for a string, not empty.
\<close>

record Track =
  track_id :: string
  track_name :: string
  previewUrl :: "string option"

record Album =
  album_id :: string
  album_name :: string
  artist :: string
  year :: string
  imageUrl :: string

datatype Difficulty = EASY | MEDIUM | HARD

record GameChallenge =
  correctTrack :: Track
  options :: "Track list"
  snippetDescription :: string

datatype GameState = SEARCHING | ALBUM_SELECTION | PLAYING | GAME_OVER | SURVIVED

definition truthy_str :: "string option \<Rightarrow> bool" where
  "truthy_str v = (case v of None \<Rightarrow> False | Some s \<Rightarrow> s \<noteq> [])"

definition has_preview :: "Track \<Rightarrow> bool" where
  \<comment> \<open>the condition \<^verbatim>\<open>t.previewUrl\<close>: present and not the empty string\<close>
  "has_preview t = truthy_str (previewUrl t)"

section \<open>String primitives of the platform\<close>

fun starts_with :: "string \<Rightarrow> string \<Rightarrow> bool" where
  "starts_with s [] = True"
| "starts_with [] (p # ps) = False"
| "starts_with (c # cs) (p # ps) = (c = p \<and> starts_with cs ps)"

fun str_includes :: "string \<Rightarrow> string \<Rightarrow> bool" where
  \<comment> \<open>\<^verbatim>\<open>s.includes(p)\<close>: \<open>p\<close> occurs in \<open>s\<close> as a contiguous run\<close>
  "str_includes [] p = (p = [])"
| "str_includes (c # cs) p = (starts_with (c # cs) p \<or> str_includes cs p)"

fun replace_first :: "string \<Rightarrow> string \<Rightarrow> string \<Rightarrow> string" where
  \<comment> \<open>\<^verbatim>\<open>s.replace(p, r)\<close> with a string pattern: only the first occurrence is replaced\<close>
  "replace_first [] p r = (if p = [] then r else [])"
| "replace_first (c # cs) p r =
     (if starts_with (c # cs) p then r @ drop (length p) (c # cs)
      else c # replace_first cs p r)"

definition split_first :: "char \<Rightarrow> string \<Rightarrow> string" where
  \<comment> \<open>\<^verbatim>\<open>s.split(sep)[0]\<close> for a one-character separator\<close>
  "split_first sep s = takeWhile (\<lambda>c. c \<noteq> sep) s"

definition digit_chars :: string where
  "digit_chars = ''0123456789''"

fun string_of_nat :: "nat \<Rightarrow> string" where
  "string_of_nat n =
     (if n < 10 then [digit_chars ! n]
      else string_of_nat (n div 10) @ [digit_chars ! (n mod 10)])"

declare string_of_nat.simps [simp del]

definition string_of_int :: "int \<Rightarrow> string" where
  \<comment> \<open>\<^verbatim>\<open>String(n)\<close> for an integer \<open>n\<close>\<close>
  "string_of_int i = (if i < 0 then CHR ''-'' # string_of_nat (nat (- i)) else string_of_nat (nat i))"

text \<open>
  \<^verbatim>\<open>parseInt(s)\<close> without a radix: leading white space is skipped (here the ASCII
  white space; the platform also skips the Unicode space characters), a sign is read, a
  \<^verbatim>\<open>0x\<close> prefix selects radix 16, and the longest prefix of digits is the value; with no
  digit the result is \<^verbatim>\<open>NaN\<close>, here \<open>None\<close>. The value is kept exact (the platform rounds
  it to a double, which changes nothing below \<open>2^53\<close>).
\<close>

definition is_space :: "char \<Rightarrow> bool" where
  "is_space c = (c \<in> set [CHR '' '', CHR 0x09, CHR 0x0A, CHR 0x0B, CHR 0x0C, CHR 0x0D])"

definition dec_val :: "char \<Rightarrow> nat option" where
  "dec_val c = map_of (zip ''0123456789'' [0 ..< 10]) c"

definition hex_val :: "char \<Rightarrow> nat option" where
  "hex_val c = map_of (zip ''0123456789abcdef'' [0 ..< 16] @ zip ''ABCDEF'' [10 ..< 16]) c"

definition digits_value :: "(char \<Rightarrow> nat option) \<Rightarrow> nat \<Rightarrow> string \<Rightarrow> nat option" where
  "digits_value dv radix s =
     (let ds = takeWhile (\<lambda>c. dv c \<noteq> None) s
      in if ds = [] then None
         else Some (foldl (\<lambda>n c. radix * n + (case dv c of Some d \<Rightarrow> d | None \<Rightarrow> 0)) 0 ds))"

definition parse_unsigned :: "string \<Rightarrow> nat option" where
  "parse_unsigned s =
     (if starts_with s ''0x'' \<or> starts_with s ''0X'' then digits_value hex_val 16 (drop 2 s)
      else digits_value dec_val 10 s)"

definition parseInt :: "string \<Rightarrow> int option" where
  "parseInt s =
     (let t = dropWhile is_space s
      in case t of
           [] \<Rightarrow> None
         | c # cs \<Rightarrow>
             if c = CHR ''-'' then map_option (\<lambda>n. - int n) (parse_unsigned cs)
             else if c = CHR ''+'' then map_option int (parse_unsigned cs)
             else map_option int (parse_unsigned t))"

section \<open>Errors and HTTP responses\<close>

text \<open>
  A thrown JavaScript value, as far as the handlers look at it: its \<^verbatim>\<open>message\<close> and its
  numeric \<^verbatim>\<open>status\<close>, either of which may be missing.
\<close>

record js_error =
  message :: "string option"
  status :: "int option"

text \<open>
  What one \<^verbatim>\<open>fetch\<close> followed by \<^verbatim>\<open>res.json()\<close> can give: the request is rejected, the
  response is not \<^verbatim>\<open>ok\<close>, the body is not JSON, or the body is an object whose
  \<^verbatim>\<open>results\<close> field is a list of items (\<open>None\<close>: the field is missing or is not a list).
\<close>

datatype 'a http_response =
    NetworkFailure
  | NotOk nat
  | BadJson
  | JsonBody "'a list option"

section \<open>Catalog client (services/musicService.ts)\<close>

subsection \<open>getAlbumTracks\<close>

record lookup_item =
  wrapperType :: "string option"
  kind :: "string option"
  trackId :: "int option"
  trackName :: string
  item_previewUrl :: "string option"

definition string_of_id :: "int option \<Rightarrow> string" where
  \<comment> \<open>\<^verbatim>\<open>String(x)\<close> of a number that may be missing\<close>
  "string_of_id v = (case v of None \<Rightarrow> ''undefined'' | Some i \<Rightarrow> string_of_int i)"

definition track_of_item :: "lookup_item \<Rightarrow> Track" where
  "track_of_item t =
     \<lparr> track_id = string_of_id (trackId t),
       track_name = trackName t,
       previewUrl = (if truthy_str (item_previewUrl t)
                     then map_option (\<lambda>u. replace_first u ''http://'' ''https://'') (item_previewUrl t)
                     else None) \<rparr>"

definition is_song :: "lookup_item \<Rightarrow> bool" where
  "is_song item = (wrapperType item = Some ''track'' \<or> kind item = Some ''song'')"

text \<open>
  The catalog is the outside world: for an album id and an optional storefront code it
  answers one lookup request. \<open>fetchWithCountry\<close> never throws: every failure is the empty
  list.
\<close>

type_synonym catalog = "string \<Rightarrow> string option \<Rightarrow> lookup_item http_response"

definition fetchWithCountry :: "catalog \<Rightarrow> string \<Rightarrow> string option \<Rightarrow> Track list" where
  "fetchWithCountry cat albumId country =
     (case cat albumId country of
        NetworkFailure \<Rightarrow> []
      | NotOk st \<Rightarrow> []
      | BadJson \<Rightarrow> []
      | JsonBody None \<Rightarrow> []
      | JsonBody (Some results) \<Rightarrow>
          filter has_preview (map track_of_item (filter is_song results)))"

text \<open>
  \<open>getAlbumTracks_io\<close> is the body of \<^verbatim>\<open>getAlbumTracks\<close> with its effect made visible: the
  first component lists the storefronts that were requested, in order; the second is the
  returned value.
\<close>

definition getAlbumTracks_io :: "catalog \<Rightarrow> string \<Rightarrow> string option list \<times> Track list" where
  "getAlbumTracks_io cat albumId =
     (let r0 = ([None], fetchWithCountry cat albumId None);
          r1 = (if length (snd r0) = 0
                then (fst r0 @ [Some ''US''], fetchWithCountry cat albumId (Some ''US''))
                else r0);
          r2 = (if length (snd r1) = 0
                then (fst r1 @ [Some ''GB''], fetchWithCountry cat albumId (Some ''GB''))
                else r1)
      in r2)"

definition getAlbumTracks :: "catalog \<Rightarrow> string \<Rightarrow> Track list" where
  "getAlbumTracks cat albumId = snd (getAlbumTracks_io cat albumId)"

subsection \<open>searchAlbums\<close>

record search_item =
  collectionId :: "int option"
  collectionName :: "string option"
  artistName :: "string option"
  releaseDate :: "string option"
  artworkUrl100 :: "string option"

definition truthy_num :: "int option \<Rightarrow> bool" where
  "truthy_num v = (case v of None \<Rightarrow> False | Some i \<Rightarrow> i \<noteq> 0)"

definition album_of_item :: "search_item \<Rightarrow> Album" where
  "album_of_item item =
     \<lparr> album_id = string_of_id (collectionId item),
       album_name = (case collectionName item of Some n \<Rightarrow> n | None \<Rightarrow> []),
       artist = (if truthy_str (artistName item)
                 then (case artistName item of Some a \<Rightarrow> a | None \<Rightarrow> [])
                 else ''Unknown Artist''),
       year = (if truthy_str (releaseDate item)
               then (case releaseDate item of Some d \<Rightarrow> split_first CHR ''-'' d | None \<Rightarrow> [])
               else ''N/A''),
       imageUrl = (if truthy_str (artworkUrl100 item)
                   then (case artworkUrl100 item of
                           Some u \<Rightarrow> replace_first u ''100x100'' ''600x600'' | None \<Rightarrow> [])
                   else []) \<rparr>"

text \<open>
  \<^verbatim>\<open>new Map(entries)\<close> keeps one entry for each key: a key stays where it was first
  inserted and holds the value inserted last.
\<close>

fun map_set :: "('k \<times> 'v) list \<Rightarrow> 'k \<Rightarrow> 'v \<Rightarrow> ('k \<times> 'v) list" where
  "map_set [] k v = [(k, v)]"
| "map_set (p # ps) k v = (if fst p = k then (k, v) # ps else p # map_set ps k v)"

definition new_Map :: "('k \<times> 'v) list \<Rightarrow> ('k \<times> 'v) list" where
  "new_Map entries = foldl (\<lambda>m e. map_set m (fst e) (snd e)) [] entries"

definition map_values :: "('k \<times> 'v) list \<Rightarrow> 'v list" where
  "map_values m = map snd m"

text \<open>
  \<^verbatim>\<open>Array.prototype.sort(cmp)\<close>: a comparator result that is \<^verbatim>\<open>NaN\<close> counts as \<open>0\<close>, and
  the sort is stable. For a comparator that orders the elements consistently every
  implementation returns the stable sorted list, which is what this insertion sort
  computes.
\<close>

definition sort_compare :: "('a \<Rightarrow> 'a \<Rightarrow> int option) \<Rightarrow> 'a \<Rightarrow> 'a \<Rightarrow> int" where
  "sort_compare cmp x y = (case cmp x y of None \<Rightarrow> 0 | Some v \<Rightarrow> v)"

fun insert_by :: "('a \<Rightarrow> 'a \<Rightarrow> int option) \<Rightarrow> 'a \<Rightarrow> 'a list \<Rightarrow> 'a list" where
  "insert_by cmp x [] = [x]"
| "insert_by cmp x (y # ys) =
     (if sort_compare cmp x y \<le> 0 then x # y # ys else y # insert_by cmp x ys)"

definition js_sort :: "('a \<Rightarrow> 'a \<Rightarrow> int option) \<Rightarrow> 'a list \<Rightarrow> 'a list" where
  "js_sort cmp xs = foldr (insert_by cmp) xs []"

definition year_cmp :: "Album \<Rightarrow> Album \<Rightarrow> int option" where
  \<comment> \<open>\<^verbatim>\<open>(a, b) => parseInt(b.year) - parseInt(a.year)\<close>; \<open>None\<close> is \<^verbatim>\<open>NaN\<close>\<close>
  "year_cmp a b =
     (case (parseInt (year b), parseInt (year a)) of
        (Some yb, Some ya) \<Rightarrow> Some (yb - ya)
      | _ \<Rightarrow> None)"

definition found_albums :: "search_item list \<Rightarrow> Album list" where
  \<comment> \<open>the constant \<^verbatim>\<open>albums\<close>: items with an id and a name, normalised\<close>
  "found_albums results =
     map album_of_item
       (filter (\<lambda>item. truthy_num (collectionId item) \<and> truthy_str (collectionName item)) results)"

definition unique_albums :: "Album list \<Rightarrow> Album list" where
  \<comment> \<open>the constant \<^verbatim>\<open>uniqueAlbums\<close>\<close>
  "unique_albums albums = map_values (new_Map (map (\<lambda>a. (album_id a, a)) albums))"

definition search_try :: "search_item http_response \<Rightarrow> js_error + Album list" where
  \<comment> \<open>the \<^verbatim>\<open>try\<close> block of \<^verbatim>\<open>searchAlbums\<close>; \<open>Inl\<close> is a throw\<close>
  "search_try resp =
     (case resp of
        NetworkFailure \<Rightarrow> Inl \<lparr> message = Some ''FAILED_TO_FETCH'', status = None \<rparr>
      | NotOk st \<Rightarrow> Inl \<lparr> message = Some (''Search failed: '' @ string_of_nat st), status = None \<rparr>
      | BadJson \<Rightarrow> Inl \<lparr> message = None, status = None \<rparr>
      | JsonBody None \<Rightarrow> Inr []
      | JsonBody (Some results) \<Rightarrow>
          Inr (js_sort year_cmp (unique_albums (found_albums results))))"

definition searchAlbums :: "search_item http_response \<Rightarrow> Album list" where
  \<comment> \<open>the \<^verbatim>\<open>catch\<close> block turns every throw into the empty list\<close>
  "searchAlbums resp = (case search_try resp of Inl error \<Rightarrow> [] | Inr albums \<Rightarrow> albums)"

definition year_num :: "Album \<Rightarrow> int" where
  \<comment> \<open>the number \<^verbatim>\<open>parseInt(a.year)\<close> when the parse succeeds\<close>
  "year_num a = (case parseInt (year a) of Some y \<Rightarrow> y | None \<Rightarrow> 0)"

text \<open>
  The order the specification describes for the result, written from its words: years
  descending, a year that does not parse being smaller than every year that does.
\<close>

definition spec_year_ge :: "Album \<Rightarrow> Album \<Rightarrow> bool" where
  "spec_year_ge a b =
     (case parseInt (year b) of
        None \<Rightarrow> True
      | Some yb \<Rightarrow> (case parseInt (year a) of None \<Rightarrow> False | Some ya \<Rightarrow> yb \<le> ya))"

subsection \<open>Sample catalog answers\<close>

definition sample_catalog :: catalog where
  "sample_catalog aid country =
     (if country = None
      then JsonBody (Some [\<lparr> wrapperType = Some ''track'', kind = Some ''song'', trackId = Some 7,
                              trackName = ''Intro'', item_previewUrl = None \<rparr>])
      else if country = Some ''US'' then NotOk 404
      else JsonBody (Some [\<lparr> wrapperType = Some ''track'', kind = Some ''song'', trackId = Some 8,
                              trackName = ''Outro'', item_previewUrl = Some ''http://a.b/c.m4a'' \<rparr>,
                           \<lparr> wrapperType = Some ''collection'', kind = None, trackId = None,
                              trackName = ''Album'', item_previewUrl = Some ''http://a.b/d.m4a'' \<rparr>]))"

definition sample_search :: "search_item http_response" where
  "sample_search = JsonBody (Some [
     \<lparr> collectionId = Some 1, collectionName = Some ''A'', artistName = None,
       releaseDate = Some ''1999-05-01'', artworkUrl100 = None \<rparr>,
     \<lparr> collectionId = Some 2, collectionName = Some ''B'', artistName = Some ''X'',
       releaseDate = Some ''2000-01-01T00:00:00Z'', artworkUrl100 = Some ''http://x/100x100bb.jpg'' \<rparr>,
     \<lparr> collectionId = Some 1, collectionName = Some ''A2'', artistName = None,
       releaseDate = Some ''1998-05-01'', artworkUrl100 = None \<rparr>])"

definition undated_search :: "search_item http_response" where
  "undated_search = JsonBody (Some [
     \<lparr> collectionId = Some 1, collectionName = Some ''A'', artistName = None,
       releaseDate = None, artworkUrl100 = None \<rparr>,
     \<lparr> collectionId = Some 2, collectionName = Some ''B'', artistName = None,
       releaseDate = Some ''2000-01-01'', artworkUrl100 = None \<rparr>])"

section \<open>Random choices\<close>

text \<open>
  Every call of \<^verbatim>\<open>Math.random()\<close> is an input of the model. An index
  \<^verbatim>\<open>Math.floor(Math.random() * n)\<close> is any number below \<open>n\<close>, here \<open>r mod n\<close> for a
  random number \<open>r\<close>. A shuffle \<^verbatim>\<open>xs.sort(() => Math.random() - 0.5)\<close> returns the
  elements of \<open>xs\<close> in an order the platform chooses: \<open>shuffle\<close> draws them one after the
  other, at the positions a list of random numbers names, so that every seed gives a
  rearrangement and every rearrangement comes from some seed.
\<close>

definition random_index :: "nat \<Rightarrow> nat \<Rightarrow> nat" where
  "random_index r n = r mod n"

primrec shuffle :: "nat list \<Rightarrow> 'a list \<Rightarrow> 'a list" where
  "shuffle [] xs = xs"
| "shuffle (r # rs) xs =
     (if xs = [] then []
      else (let i = random_index r (length xs)
            in xs ! i # shuffle rs (take i xs @ drop (Suc i) xs)))"

section \<open>Challenge generator (services/geminiService.ts)\<close>

text \<open>
  What the \<^verbatim>\<open>try\<close> block gets from the AI service: either the call (or the parsing of
  its text) throws, or there is a parsed object, any field of which may be missing (the
  text defaults to \<^verbatim>\<open>"{}"\<close>).
\<close>

record ai_reply =
  correctTrackName :: "string option"
  wrongTrackNames :: "string list option"
  vibeDescription :: string

datatype ai_outcome = AiFailed js_error | AiReplied ai_reply

record gen_env =
  ai :: ai_outcome
  wrong_pick :: "nat \<Rightarrow> nat"
  ai_shuffle :: "nat list"
  fallback_track_shuffle :: "nat list"
  fallback_option_shuffle :: "nat list"

definition undefined_access :: js_error where
  \<comment> \<open>the \<^verbatim>\<open>TypeError\<close> of reading a property of \<^verbatim>\<open>undefined\<close>; its text names neither
      a quota nor a status\<close>
  "undefined_access = \<lparr> message = Some ''Cannot read properties of undefined'', status = None \<rparr>"

definition find_by_name :: "Track list \<Rightarrow> string \<Rightarrow> Track option" where
  "find_by_name tracks n = find (\<lambda>t. track_name t = n) tracks"

definition wrong_tracks :: "Track list \<Rightarrow> (nat \<Rightarrow> nat) \<Rightarrow> string list \<Rightarrow> Track list" where
  \<comment> \<open>each wrong name resolved to a track; a name that matches none gets a random track\<close>
  "wrong_tracks tracks pick names =
     map (\<lambda>(i, n). case find_by_name tracks n of
                      Some t \<Rightarrow> t
                    | None \<Rightarrow> tracks ! random_index (pick i) (length tracks))
         (zip [0 ..< length names] names)"

definition ai_challenge :: "Track list \<Rightarrow> gen_env \<Rightarrow> js_error + GameChallenge" where
  \<comment> \<open>the \<^verbatim>\<open>try\<close> block of \<^verbatim>\<open>getAlbumChallenge\<close>; \<open>Inl\<close> is a throw\<close>
  "ai_challenge spotifyTracks env =
     (case ai env of
        AiFailed e \<Rightarrow> Inl e
      | AiReplied data \<Rightarrow>
          (case (case (case correctTrackName data of
                         Some n \<Rightarrow> find_by_name spotifyTracks n | None \<Rightarrow> None) of
                   Some t \<Rightarrow> Some t
                 | None \<Rightarrow> (case spotifyTracks of [] \<Rightarrow> None | t # ts \<Rightarrow> Some t)) of
             None \<Rightarrow> Inl undefined_access
           | Some correctSpotifyTrack \<Rightarrow>
               (case wrongTrackNames data of
                  None \<Rightarrow> Inl undefined_access
                | Some names \<Rightarrow>
                    Inr \<lparr> correctTrack = correctSpotifyTrack,
                          options = shuffle (ai_shuffle env)
                            (take 4 (correctSpotifyTrack
                                       # wrong_tracks spotifyTracks (wrong_pick env) names)),
                          snippetDescription = vibeDescription data \<rparr>)))"

definition rethrown :: "js_error \<Rightarrow> bool" where
  \<comment> \<open>\<^verbatim>\<open>error?.message?.includes('quota') || error?.message?.includes('429')\<close>\<close>
  "rethrown error =
     (case message error of
        None \<Rightarrow> False
      | Some m \<Rightarrow> str_includes m ''quota'' \<or> str_includes m ''429'')"

definition survival_text :: string where
  \<comment> \<open>the fixed Hebrew sentence of the fallback description, as UTF-8 bytes\<close>
  "survival_text =
     [CHR 0xD7, CHR 0x9E, CHR 0xD7, CHR 0xA6, CHR 0xD7, CHR 0x91, CHR 0x20, CHR 0xD7,
      CHR 0x94, CHR 0xD7, CHR 0x99, CHR 0xD7, CHR 0xA9, CHR 0xD7, CHR 0xA8, CHR 0xD7,
      CHR 0x93, CHR 0xD7, CHR 0x95, CHR 0xD7, CHR 0xAA, CHR 0x3A, CHR 0x20, CHR 0xD7,
      CHR 0x96, CHR 0xD7, CHR 0x94, CHR 0xD7, CHR 0x94, CHR 0x20, CHR 0xD7, CHR 0x90,
      CHR 0xD7, CHR 0xAA, CHR 0x20, CHR 0xD7, CHR 0x94, CHR 0xD7, CHR 0xA9, CHR 0xD7,
      CHR 0x99, CHR 0xD7, CHR 0xA8, CHR 0x20, CHR 0xD7, CHR 0x9E, CHR 0xD7, CHR 0x94,
      CHR 0xD7, CHR 0x90, CHR 0xD7, CHR 0x9C, CHR 0xD7, CHR 0x91, CHR 0xD7, CHR 0x95,
      CHR 0xD7, CHR 0x9D, CHR 0x20]"

definition local_fallback :: "Album \<Rightarrow> Track list \<Rightarrow> gen_env \<Rightarrow> js_error + GameChallenge" where
  \<comment> \<open>the local fallback of the \<^verbatim>\<open>catch\<close> block; on no track at all, reading
      \<^verbatim>\<open>correct.id\<close> throws\<close>
  "local_fallback album spotifyTracks env =
     (let shuffled = shuffle (fallback_track_shuffle env) spotifyTracks
      in case shuffled of
           [] \<Rightarrow> Inl undefined_access
         | correct # rest \<Rightarrow>
             (let wrong = take 3 rest
              in Inr \<lparr> correctTrack = correct,
                       options = shuffle (fallback_option_shuffle env) (correct # wrong),
                       snippetDescription = survival_text @ album_name album \<rparr>))"

definition getAlbumChallenge ::
    "Album \<Rightarrow> Track list \<Rightarrow> Difficulty \<Rightarrow> gen_env \<Rightarrow> js_error + GameChallenge" where
  "getAlbumChallenge album spotifyTracks difficulty env =
     (case ai_challenge spotifyTracks env of
        Inr chal \<Rightarrow> Inr chal
      | Inl error \<Rightarrow>
          if rethrown error then Inl error
          else local_fallback album spotifyTracks env)"

definition quota_class :: "js_error \<Rightarrow> bool" where
  \<comment> \<open>the test in the \<^verbatim>\<open>catch\<close> block of the round controller:
      \<^verbatim>\<open>err?.message?.includes('quota') || err?.status === 429\<close>\<close>
  "quota_class err =
     ((case message err of None \<Rightarrow> False | Some m \<Rightarrow> str_includes m ''quota'')
      \<or> status err = Some 429)"

subsection \<open>Sample tracks and generator inputs\<close>

definition track_a :: Track where
  "track_a = \<lparr> track_id = ''1'', track_name = ''Alpha'', previewUrl = Some ''https://p/a.m4a'' \<rparr>"

definition track_b :: Track where
  "track_b = \<lparr> track_id = ''2'', track_name = ''Beta'', previewUrl = Some ''https://p/b.m4a'' \<rparr>"

definition sample_album :: Album where
  "sample_album = \<lparr> album_id = ''42'', album_name = ''Letters'', artist = ''X'',
                    year = ''2000'', imageUrl = [] \<rparr>"

definition env_failing :: "js_error \<Rightarrow> gen_env" where
  "env_failing e = \<lparr> ai = AiFailed e, wrong_pick = (\<lambda>i. 0), ai_shuffle = [],
                     fallback_track_shuffle = [], fallback_option_shuffle = [] \<rparr>"

definition env_replying :: "ai_reply \<Rightarrow> gen_env" where
  "env_replying d = \<lparr> ai = AiReplied d, wrong_pick = (\<lambda>i. 0), ai_shuffle = [],
                      fallback_track_shuffle = [], fallback_option_shuffle = [] \<rparr>"

definition status_429 :: js_error where
  "status_429 = \<lparr> message = Some ''Too Many Requests'', status = Some 429 \<rparr>"

definition quota_exceeded :: js_error where
  "quota_exceeded = \<lparr> message = Some ''You exceeded your current quota'', status = Some 429 \<rparr>"

definition network_down :: js_error where
  "network_down = \<lparr> message = Some ''fetch failed'', status = None \<rparr>"

section \<open>Round controller (the App component)\<close>

text \<open>
  The component's state variables, its refs and the two storage keys it writes, as one
  record. A handler is a function from the state its render saw to the state after all
  its updates: intents are dispatched one at a time and each handler runs to completion,
  so the values a handler's closure reads are those of the state it starts from. The
  texts of the status line (\<^verbatim>\<open>customMessage\<close>, the language, the search box) and the loss
  sound are presentation and are left out.

  Two callbacks of the audio element run later, and not on the values of the state they
  find: the error callback that \<^verbatim>\<open>playSnippet\<close> installs (the skip of a round whose sample
  does not load) and the rejection of \<^verbatim>\<open>play()\<close>. The error callback, and the round-start
  it calls, are the functions of the render that called \<^verbatim>\<open>playSnippet\<close>: they read the state
  variables as that render saw them and write to the state as it is. A \<open>render\<close> holds the
  values that are read this way.

  An audio element is known by an identity (a number, fresh for each \<^verbatim>\<open>new Audio\<close>), the
  address it plays, whether it is paused, and the render its error callback belongs to.
  A pending \<^verbatim>\<open>setTimeout\<close> is an entry of \<open>timers\<close> with its delay in milliseconds.
\<close>

datatype message_key =
    statusDefault | scanning | albumSelectMsg | communicationError | loadingTracks
  | noSamples | quotaTitle | snippetPrompt | listeningAgain | correctAnswer | wrongAnswer

record render =
  r_gameState :: GameState
  r_difficulty :: Difficulty
  r_selectedSource :: "Album option"
  r_challenge :: "GameChallenge option"
  r_completedAlbums :: "string list"
  r_currentAlbumTracks :: "Track list"
  r_playedTrackIds :: "string set"

record audio =
  audio_id :: nat
  src :: "string option"
  paused :: bool
  made_in :: render

datatype timer = SnippetTimeout nat nat | GameOverTimeout nat

record app_state =
  gameState :: GameState
  difficulty :: Difficulty
  albums :: "Album list"
  selectedSource :: "Album option"
  challenge :: "GameChallenge option"
  score :: int
  highScore :: int
  completedAlbums :: "string list"
  isFiring :: bool
  isVictory :: bool
  isLoading :: bool
  isAudioPlaying :: bool
  messageKey :: message_key
  lastCorrectTrack :: "string option"
  isQuotaError :: bool
  hasNoSamplesError :: bool
  currentAlbumTracks :: "Track list"
  playedTrackIds :: "string set"
  replaysRemaining :: int
  audioRef :: "audio option"
  isVictoryRef :: bool
  next_audio :: nat
  timers :: "timer list"
  stored_highscore :: "int option"
  stored_completed :: "string list option"

definition render_of :: "app_state \<Rightarrow> render" where
  \<comment> \<open>what the handlers of the render of state \<open>s\<close> read\<close>
  "render_of s =
     \<lparr> r_gameState = gameState s, r_difficulty = difficulty s,
       r_selectedSource = selectedSource s, r_challenge = challenge s,
       r_completedAlbums = completedAlbums s, r_currentAlbumTracks = currentAlbumTracks s,
       r_playedTrackIds = playedTrackIds s \<rparr>"

record round_env =
  catalog_of :: catalog
  gen_of :: gen_env
  heal_pick :: nat
  heal_shuffle :: "nat list"

definition points :: "Difficulty \<Rightarrow> int" where
  "points d = (if d = HARD then 200 else if d = MEDIUM then 100 else 50)"

definition snippet_duration :: "Difficulty \<Rightarrow> nat" where
  "snippet_duration d = (if d = EASY then 5000 else if d = MEDIUM then 2000 else 800)"

subsection \<open>Effects and mounting\<close>

text \<open>
  The two storage keys hold what the component itself writes there: the high score as the
  decimal text of an integer, the completed albums as a JSON list of ids. They are kept
  at their parsed values (\<open>None\<close> for a key never written); a text under the high-score key
  that \<^verbatim>\<open>parseInt\<close> cannot read is outside this model.
\<close>

definition high_score_effect :: "app_state \<Rightarrow> app_state" where
  "high_score_effect s =
     (if highScore s < score s
      then s\<lparr> highScore := score s, stored_highscore := Some (score s) \<rparr>
      else s)"

definition victory_ref_effect :: "app_state \<Rightarrow> app_state" where
  "victory_ref_effect s = s\<lparr> isVictoryRef := isVictory s \<rparr>"

definition run_effects :: "app_state \<Rightarrow> app_state" where
  "run_effects s = victory_ref_effect (high_score_effect s)"

definition initial_state :: app_state where
  "initial_state =
     \<lparr> gameState = SEARCHING, difficulty = MEDIUM, albums = [], selectedSource = None,
       challenge = None, score = 0, highScore = 0, completedAlbums = [], isFiring = False,
       isVictory = False, isLoading = False, isAudioPlaying = False,
       messageKey = statusDefault, lastCorrectTrack = None, isQuotaError = False,
       hasNoSamplesError = False, currentAlbumTracks = [], playedTrackIds = {},
       replaysRemaining = 2, audioRef = None, isVictoryRef = False, next_audio = 0,
       timers = [], stored_highscore = None, stored_completed = None \<rparr>"

definition mount :: "int option \<Rightarrow> string list option \<Rightarrow> app_state" where
  \<comment> \<open>the first render and the effect that loads the saved statistics\<close>
  "mount savedHighScore savedCompleted =
     run_effects
       (initial_state
          \<lparr> highScore := (case savedHighScore of Some h \<Rightarrow> h | None \<Rightarrow> 0),
            completedAlbums := (case savedCompleted of Some c \<Rightarrow> c | None \<Rightarrow> []),
            stored_highscore := savedHighScore,
            stored_completed := savedCompleted \<rparr>)"

subsection \<open>Handlers\<close>

definition handleOpenKeyDialog :: "app_state \<Rightarrow> bool \<Rightarrow> app_state" where
  \<comment> \<open>the flag says whether the host offers \<^verbatim>\<open>window.aistudio.openSelectKey\<close>\<close>
  "handleOpenKeyDialog s has_aistudio =
     (if has_aistudio then s\<lparr> isQuotaError := False, messageKey := statusDefault \<rparr> else s)"

definition handleSearch :: "app_state \<Rightarrow> string \<Rightarrow> search_item http_response \<Rightarrow> app_state" where
  \<comment> \<open>\<open>query\<close> is the trimmed search term, \<open>resp\<close> what the catalog answers\<close>
  "handleSearch s query resp =
     (if query = [] \<or> isLoading s then s
      else (let s1 = s\<lparr> isLoading := True, hasNoSamplesError := False, albums := [],
                        messageKey := scanning \<rparr>;
                results = searchAlbums resp
            in (if 0 < length results
                then s1\<lparr> albums := results, gameState := ALBUM_SELECTION,
                         messageKey := albumSelectMsg \<rparr>
                else s1) \<lparr> isLoading := False \<rparr>))"

text \<open>
  \<^verbatim>\<open>markAlbumComplete\<close>, \<^verbatim>\<open>playSnippet\<close> and \<^verbatim>\<open>startChallenge\<close> are the three functions that
  the error callback of an audio element reaches. Each takes the render \<open>r\<close> it belongs to
  and the state \<open>s\<close> it writes to. A button calls them from the render of the state it is
  pressed in: \<open>markAlbumComplete s\<close> and \<open>startChallenge s\<close> are these calls.
\<close>

definition markAlbumComplete_of :: "render \<Rightarrow> app_state \<Rightarrow> string \<Rightarrow> app_state" where
  "markAlbumComplete_of r s i =
     (if i \<notin> set (r_completedAlbums r)
      then s\<lparr> completedAlbums := r_completedAlbums r @ [i],
              stored_completed := Some (r_completedAlbums r @ [i]) \<rparr>
      else s)"

definition markAlbumComplete :: "app_state \<Rightarrow> string \<Rightarrow> app_state" where
  "markAlbumComplete s i = markAlbumComplete_of (render_of s) s i"

definition playSnippet :: "render \<Rightarrow> app_state \<Rightarrow> string option \<Rightarrow> app_state" where
  \<comment> \<open>the element that was playing is paused and dropped; the new one plays, and its
      error callback is the one of render \<open>r\<close>\<close>
  "playSnippet r s url =
     s\<lparr> audioRef := Some \<lparr> audio_id = next_audio s, src = url, paused = False, made_in = r \<rparr>,
        next_audio := Suc (next_audio s),
        isAudioPlaying := True,
        timers := timers s @ [SnippetTimeout (snippet_duration (r_difficulty r)) (next_audio s)] \<rparr>"

definition self_heal :: "string set \<Rightarrow> Track list \<Rightarrow> round_env \<Rightarrow> GameChallenge \<Rightarrow> GameChallenge" where
  "self_heal localPlayedIds remainingTracks env chal =
     (if track_id (correctTrack chal) \<in> localPlayedIds \<or> \<not> has_preview (correctTrack chal)
      then (let finalCorrect =
                  remainingTracks ! random_index (heal_pick env) (length remainingTracks)
            in chal\<lparr> options :=
                       (if find (\<lambda>opt. track_id opt = track_id finalCorrect) (options chal) = None
                        then shuffle (heal_shuffle env) (finalCorrect # take 3 (options chal))
                        else options chal),
                     correctTrack := finalCorrect \<rparr>)
      else chal)"

definition startChallenge_of :: "render \<Rightarrow> app_state \<Rightarrow> Album \<Rightarrow> bool \<Rightarrow> round_env \<Rightarrow> app_state" where
  "startChallenge_of r s album isNewAlbum env =
     (let s0 = s\<lparr> isLoading := True, isQuotaError := False, hasNoSamplesError := False \<rparr>;
          tracks = (if isNewAlbum
                    then filter has_preview (getAlbumTracks (catalog_of env) (album_id album))
                    else r_currentAlbumTracks r);
          localPlayedIds = (if isNewAlbum then {} else r_playedTrackIds r);
          s1 = (if isNewAlbum
                then s0\<lparr> selectedSource := Some album, messageKey := loadingTracks \<rparr>
                else s0)
      in if isNewAlbum \<and> length tracks = 0
         then s1\<lparr> messageKey := noSamples, hasNoSamplesError := True, isLoading := False \<rparr>
         else
          (let s2 = (if isNewAlbum
                     then s1\<lparr> currentAlbumTracks := tracks, playedTrackIds := localPlayedIds,
                              replaysRemaining := 2 \<rparr>
                     else s1);
               remainingTracks = filter (\<lambda>t. track_id t \<notin> localPlayedIds) tracks
           in if length remainingTracks = 0
              then (case r_selectedSource r of
                      Some source \<Rightarrow>
                        markAlbumComplete_of r (s2\<lparr> gameState := SURVIVED \<rparr>) (album_id source)
                    | None \<Rightarrow> s2\<lparr> gameState := SURVIVED \<rparr>) \<lparr> isLoading := False \<rparr>
              else
               (case getAlbumChallenge album tracks (r_difficulty r) (gen_of env) of
                  Inr chal \<Rightarrow>
                    (let healed = self_heal localPlayedIds remainingTracks env chal
                     in (playSnippet r
                           (s2\<lparr> challenge := Some healed,
                                lastCorrectTrack := Some (track_name (correctTrack healed)),
                                gameState := PLAYING \<rparr>)
                           (previewUrl (correctTrack healed))) \<lparr> isLoading := False \<rparr>)
                | Inl err \<Rightarrow>
                    (if quota_class err
                     then s2\<lparr> isQuotaError := True, messageKey := quotaTitle \<rparr>
                     else s2\<lparr> messageKey := communicationError \<rparr>) \<lparr> isLoading := False \<rparr>)))"

definition startChallenge :: "app_state \<Rightarrow> Album \<Rightarrow> bool \<Rightarrow> round_env \<Rightarrow> app_state" where
  "startChallenge s album isNewAlbum env = startChallenge_of (render_of s) s album isNewAlbum env"

text \<open>
  The three values that round-start, called from the render of state \<open>s\<close>, computes
  before it asks for a challenge: the track list it works on (fetched and filtered for a
  new album, the stored one otherwise), the played ids it counts with (none for a new
  album) and the tracks still to play.
\<close>

definition round_tracks :: "app_state \<Rightarrow> Album \<Rightarrow> bool \<Rightarrow> round_env \<Rightarrow> Track list" where
  "round_tracks s album isNewAlbum env =
     (if isNewAlbum
      then filter has_preview (getAlbumTracks (catalog_of env) (album_id album))
      else currentAlbumTracks s)"

definition round_played :: "app_state \<Rightarrow> bool \<Rightarrow> string set" where
  "round_played s isNewAlbum = (if isNewAlbum then {} else playedTrackIds s)"

definition remaining_tracks :: "app_state \<Rightarrow> Album \<Rightarrow> bool \<Rightarrow> round_env \<Rightarrow> Track list" where
  "remaining_tracks s album isNewAlbum env =
     filter (\<lambda>t. track_id t \<notin> round_played s isNewAlbum) (round_tracks s album isNewAlbum env)"

definition loaded :: "app_state \<Rightarrow> Album \<Rightarrow> bool \<Rightarrow> round_env \<Rightarrow> app_state" where
  \<comment> \<open>the state when round-start has stored the track list and goes on to count\<close>
  "loaded s album isNewAlbum env =
     (if isNewAlbum
      then s\<lparr> isLoading := True, isQuotaError := False, hasNoSamplesError := False,
              selectedSource := Some album, messageKey := loadingTracks,
              currentAlbumTracks := round_tracks s album isNewAlbum env,
              playedTrackIds := {}, replaysRemaining := 2 \<rparr>
      else s\<lparr> isLoading := True, isQuotaError := False, hasNoSamplesError := False \<rparr>)"

definition handleReplay :: "app_state \<Rightarrow> app_state" where
  "handleReplay s =
     (case challenge s of
        Some c \<Rightarrow>
          if 0 < replaysRemaining s \<and> \<not> isAudioPlaying s \<and> \<not> isVictory s
          then playSnippet (render_of s)
                 (s\<lparr> replaysRemaining := replaysRemaining s - 1,
                    messageKey := listeningAgain \<rparr>)
                 (previewUrl (correctTrack c))
          else s
      | None \<Rightarrow> s)"

definition handleAnswer :: "app_state \<Rightarrow> Track \<Rightarrow> app_state" where
  "handleAnswer s track =
     (if isFiring s \<or> isVictory s \<or> challenge s = None then s
      else case challenge s of
             None \<Rightarrow> s
           | Some c \<Rightarrow>
               if track_id track = track_id (correctTrack c)
               then s\<lparr> isVictory := True, isVictoryRef := True,
                       score := score s + points (difficulty s),
                       messageKey := correctAnswer,
                       isAudioPlaying := True,
                       playedTrackIds := insert (track_id track) (playedTrackIds s),
                       audioRef := map_option (\<lambda>a. a\<lparr> paused := False \<rparr>) (audioRef s) \<rparr>
               else s\<lparr> isFiring := True,
                       audioRef := map_option (\<lambda>a. a\<lparr> paused := True \<rparr>) (audioRef s),
                       isAudioPlaying := False,
                       messageKey := wrongAnswer,
                       timers := timers s @ [GameOverTimeout 1500] \<rparr>)"

definition nextRound :: "app_state \<Rightarrow> round_env \<Rightarrow> app_state" where
  "nextRound s env =
     (let s1 = s\<lparr> isVictory := False, isVictoryRef := False, isFiring := False,
                  isAudioPlaying := False \<rparr>
      in case selectedSource s of
           Some source \<Rightarrow> startChallenge_of (render_of s) s1 source False env
         | None \<Rightarrow> s1)"

definition flags_cleared :: "app_state \<Rightarrow> app_state" where
  \<comment> \<open>the state \<^verbatim>\<open>nextRound\<close> leaves for round-start\<close>
  "flags_cleared s = s\<lparr> isVictory := False, isVictoryRef := False, isFiring := False,
                         isAudioPlaying := False \<rparr>"

definition resetGame :: "app_state \<Rightarrow> app_state" where
  "resetGame s =
     s\<lparr> gameState := SEARCHING, score := 0, isFiring := False, isVictory := False,
        isVictoryRef := False, isAudioPlaying := False, isQuotaError := False,
        hasNoSamplesError := False, playedTrackIds := {}, currentAlbumTracks := [],
        replaysRemaining := 2, messageKey := statusDefault \<rparr>"

definition backToSelection :: "app_state \<Rightarrow> app_state" where
  "backToSelection s =
     s\<lparr> gameState := ALBUM_SELECTION, hasNoSamplesError := False, messageKey := albumSelectMsg \<rparr>"

definition backToSearchArtist :: "app_state \<Rightarrow> app_state" where
  "backToSearchArtist s =
     s\<lparr> gameState := SEARCHING, hasNoSamplesError := False, messageKey := statusDefault \<rparr>"

definition fire_timer :: "app_state \<Rightarrow> nat \<Rightarrow> app_state" where
  \<comment> \<open>the callback of the pending timer at position \<open>i\<close> runs, and the timer is gone\<close>
  "fire_timer s i =
     (if i < length (timers s)
      then (let s1 = s\<lparr> timers := take i (timers s) @ drop (Suc i) (timers s) \<rparr>
            in case timers s ! i of
                 GameOverTimeout ms \<Rightarrow> s1\<lparr> gameState := GAME_OVER \<rparr>
               | SnippetTimeout ms a \<Rightarrow>
                   if map_option audio_id (audioRef s) = Some a \<and> \<not> isVictoryRef s
                   then s1\<lparr> audioRef := map_option (\<lambda>au. au\<lparr> paused := True \<rparr>) (audioRef s),
                            isAudioPlaying := False,
                            messageKey := snippetPrompt \<rparr>
                   else s1)
      else s)"

subsection \<open>Intents and what the screen offers\<close>

text \<open>
  An intent is a user action or a timer that comes due. \<open>enabled\<close> says when the rendered
  screen offers it: the search form and the difficulty buttons on the search screen, the
  album tiles and the way back on the selection screen, the answer tiles, the replay
  button and the next-round button inside the round panel, the reset buttons on the two
  end screens, and the two header buttons of the no-samples state. One step handles an
  intent and then runs the effects.
\<close>

datatype event =
    Search string "search_item http_response"
  | SetDifficulty Difficulty
  | PickAlbum Album round_env
  | Answer Track
  | NextRound round_env
  | Replay
  | Reset
  | BackToSelection
  | BackToSearchArtist
  | OpenKeyDialog bool
  | TimerFires nat

definition panel_shown :: "app_state \<Rightarrow> bool" where
  "panel_shown s =
     ((gameState s = PLAYING \<or> isQuotaError s \<or> hasNoSamplesError s) \<and> challenge s \<noteq> None)"

definition error_panel :: "app_state \<Rightarrow> bool" where
  "error_panel s = (isQuotaError s \<or> hasNoSamplesError s)"

fun enabled :: "app_state \<Rightarrow> event \<Rightarrow> bool" where
  "enabled s (Search query resp) = (gameState s = SEARCHING \<and> \<not> isLoading s)"
| "enabled s (SetDifficulty d) = (gameState s = SEARCHING)"
| "enabled s (PickAlbum album env) = (gameState s = ALBUM_SELECTION \<and> album \<in> set (albums s))"
| "enabled s (Answer track) =
     (panel_shown s \<and> \<not> error_panel s \<and> \<not> isVictory s \<and> \<not> isFiring s \<and> \<not> isLoading s
      \<and> (case challenge s of None \<Rightarrow> False | Some c \<Rightarrow> track \<in> set (options c)))"
| "enabled s (NextRound env) = (panel_shown s \<and> \<not> error_panel s \<and> isVictory s)"
| "enabled s Replay =
     (panel_shown s \<and> \<not> isVictory s \<and> \<not> isFiring s \<and> \<not> error_panel s
      \<and> replaysRemaining s \<noteq> 0 \<and> \<not> isAudioPlaying s)"
| "enabled s Reset = (gameState s = ALBUM_SELECTION \<or> gameState s = SURVIVED \<or> gameState s = GAME_OVER)"
| "enabled s BackToSelection = hasNoSamplesError s"
| "enabled s BackToSearchArtist = hasNoSamplesError s"
| "enabled s (OpenKeyDialog has_aistudio) = True"
| "enabled s (TimerFires i) = (i < length (timers s))"

fun handle :: "app_state \<Rightarrow> event \<Rightarrow> app_state" where
  "handle s (Search query resp) = handleSearch s query resp"
| "handle s (SetDifficulty d) = s\<lparr> difficulty := d \<rparr>"
| "handle s (PickAlbum album env) = startChallenge s album True env"
| "handle s (Answer track) = handleAnswer s track"
| "handle s (NextRound env) = nextRound s env"
| "handle s Replay = handleReplay s"
| "handle s Reset = resetGame s"
| "handle s BackToSelection = backToSelection s"
| "handle s BackToSearchArtist = backToSearchArtist s"
| "handle s (OpenKeyDialog has_aistudio) = handleOpenKeyDialog s has_aistudio"
| "handle s (TimerFires i) = fire_timer s i"

definition step :: "app_state \<Rightarrow> event \<Rightarrow> app_state" where
  "step s e = (if enabled s e then run_effects (handle s e) else s)"

definition run :: "app_state \<Rightarrow> event list \<Rightarrow> app_state" where
  "run s es = foldl step s es"

primrec trace :: "app_state \<Rightarrow> event list \<Rightarrow> app_state list" where
  \<comment> \<open>the states a run goes through, the first one included\<close>
  "trace s [] = [s]"
| "trace s (e # es) = s # trace (step s e) es"

subsection \<open>The callbacks of the audio element\<close>






definition playable :: "app_state \<Rightarrow> bool" where
  \<comment> \<open>every stored track has a preview, in the state and in the render of its element\<close>
  "playable s =
     ((\<forall>t \<in> set (currentAlbumTracks s). has_preview t)
      \<and> (\<forall>a. audioRef s = Some a \<longrightarrow>
             (\<forall>t \<in> set (r_currentAlbumTracks (made_in a)). has_preview t)))"


subsection \<open>What holds in every state of a run\<close>

definition round_invariant :: "app_state \<Rightarrow> bool" where
  "round_invariant s =
     ((\<forall>t \<in> set (currentAlbumTracks s). has_preview t)
      \<and> (gameState s = SEARCHING \<or> gameState s = ALBUM_SELECTION \<or> hasNoSamplesError s \<longrightarrow>
           playedTrackIds s = {} \<and> score s = 0 \<and> replaysRemaining s = 2
           \<and> \<not> isVictory s \<and> \<not> isFiring s)
      \<and> (\<forall>c. challenge s = Some c \<longrightarrow> lastCorrectTrack s = Some (track_name (correctTrack c)))
      \<and> \<not> isLoading s
      \<and> 0 \<le> score s)"

definition ledger_invariant :: "app_state \<Rightarrow> bool" where
  "ledger_invariant s =
     (score s \<le> highScore s
      \<and> highScore s = (case stored_highscore s of Some h \<Rightarrow> h | None \<Rightarrow> 0))"

definition invariant :: "app_state \<Rightarrow> bool" where
  "invariant s = (round_invariant s \<and> ledger_invariant s)"

subsection \<open>Playing an album through\<close>

text \<open>
  The player answers every round correctly: the tile chosen is the option with the id of
  the correct track, and the next-round button follows.
\<close>

definition correct_option :: "app_state \<Rightarrow> Track option" where
  "correct_option s =
     (case challenge s of
        None \<Rightarrow> None
      | Some c \<Rightarrow> find (\<lambda>opt. track_id opt = track_id (correctTrack c)) (options c))"

definition answer_correctly :: "app_state \<Rightarrow> app_state" where
  "answer_correctly s = (case correct_option s of None \<Rightarrow> s | Some t \<Rightarrow> step s (Answer t))"

primrec play_rounds :: "app_state \<Rightarrow> round_env list \<Rightarrow> app_state" where
  "play_rounds s [] = s"
| "play_rounds s (env # envs) = play_rounds (step (answer_correctly s) (NextRound env)) envs"

definition generator_answers :: "round_env \<Rightarrow> bool" where
  \<comment> \<open>the AI call does not fail with an error that the generator throws again\<close>
  "generator_answers env =
     (case ai (gen_of env) of AiFailed err \<Rightarrow> \<not> rethrown err | AiReplied d \<Rightarrow> True)"

definition mid_album :: "Album \<Rightarrow> Track list \<Rightarrow> Difficulty \<Rightarrow> nat \<Rightarrow> app_state \<Rightarrow> bool" where
  \<comment> \<open>a round of the album is open and \<open>k\<close> of its tracks have been answered\<close>
  "mid_album album tracks d k s =
     (gameState s = PLAYING \<and> \<not> isQuotaError s \<and> \<not> hasNoSamplesError s
      \<and> \<not> isVictory s \<and> \<not> isFiring s \<and> \<not> isLoading s
      \<and> currentAlbumTracks s = tracks \<and> selectedSource s = Some album \<and> difficulty s = d
      \<and> (case challenge s of
            None \<Rightarrow> False
          | Some ch \<Rightarrow> correctTrack ch \<in> set tracks
                      \<and> track_id (correctTrack ch) \<notin> playedTrackIds s
                      \<and> track_id (correctTrack ch) \<in> track_id ` set (options ch))
      \<and> playedTrackIds s \<subseteq> track_id ` set tracks
      \<and> card (playedTrackIds s) = k
      \<and> score s = int k * points d
      \<and> distinct (completedAlbums s))"


subsection \<open>Sample sessions\<close>

definition two_track_catalog :: catalog where
  "two_track_catalog aid country = JsonBody (Some [
      \<lparr> wrapperType = Some ''track'', kind = Some ''song'', trackId = Some 1,
        trackName = ''Alpha'', item_previewUrl = Some ''https://p/a.m4a'' \<rparr>,
      \<lparr> wrapperType = Some ''track'', kind = Some ''song'', trackId = Some 2,
        trackName = ''Beta'', item_previewUrl = Some ''https://p/b.m4a'' \<rparr>])"

definition five_track_catalog :: catalog where
  "five_track_catalog aid country = JsonBody (Some [
      \<lparr> wrapperType = Some ''track'', kind = Some ''song'', trackId = Some 1,
        trackName = ''Alpha'', item_previewUrl = Some ''https://p/a.m4a'' \<rparr>,
      \<lparr> wrapperType = Some ''track'', kind = Some ''song'', trackId = Some 2,
        trackName = ''Beta'', item_previewUrl = Some ''https://p/b.m4a'' \<rparr>,
      \<lparr> wrapperType = Some ''track'', kind = Some ''song'', trackId = Some 3,
        trackName = ''Gamma'', item_previewUrl = Some ''https://p/c.m4a'' \<rparr>,
      \<lparr> wrapperType = Some ''track'', kind = Some ''song'', trackId = Some 4,
        trackName = ''Delta'', item_previewUrl = Some ''https://p/d.m4a'' \<rparr>,
      \<lparr> wrapperType = Some ''track'', kind = Some ''song'', trackId = Some 5,
        trackName = ''Epsilon'', item_previewUrl = Some ''https://p/e.m4a'' \<rparr>])"

definition letters_search :: "search_item http_response" where
  "letters_search = JsonBody (Some [
     \<lparr> collectionId = Some 42, collectionName = Some ''Letters'', artistName = Some ''X'',
       releaseDate = Some ''2000-01-01'', artworkUrl100 = None \<rparr>])"

definition offline_round :: round_env where
  \<comment> \<open>the AI service is down: the generator falls back to the local choice\<close>
  "offline_round = \<lparr> catalog_of = two_track_catalog, gen_of = env_failing network_down,
                     heal_pick = 0, heal_shuffle = [] \<rparr>"


definition repeating_round :: round_env where
  \<comment> \<open>the AI service names the same wrong track three times\<close>
  "repeating_round =
     \<lparr> catalog_of = five_track_catalog,
       gen_of = env_replying \<lparr> correctTrackName = Some ''Alpha'',
                               wrongTrackNames = Some [''Beta'', ''Beta'', ''Beta''],
                               vibeDescription = ''calm'' \<rparr>,
       heal_pick = 0, heal_shuffle = [] \<rparr>"

definition at_selection :: app_state where
  "at_selection = run (mount None None) [Search ''letters'' letters_search]"

definition first_round :: app_state where
  "first_round = run (mount None None)
     [Search ''letters'' letters_search, PickAlbum sample_album offline_round]"

definition after_win :: app_state where
  "after_win = run (mount None None)
     [Search ''letters'' letters_search, PickAlbum sample_album offline_round, Answer track_a]"






definition repeated_round :: app_state where
  "repeated_round = run (mount None None)
     [Search ''letters'' letters_search, PickAlbum sample_album repeating_round]"

definition shown_options :: "app_state \<Rightarrow> Track list" where
  \<comment> \<open>the answer tiles of the current challenge\<close>
  "shown_options s = (case challenge s of None \<Rightarrow> [] | Some c \<Rightarrow> options c)"


section \<open>Properties of the catalog client\<close>

subsection \<open>Track lookup\<close>

lemma replace_first_nonempty: "s \<noteq> [] \<Longrightarrow> r \<noteq> [] \<Longrightarrow> replace_first s p r \<noteq> []"
  by (cases s) auto

lemma has_preview_track_of_item: "has_preview (track_of_item t) = truthy_str (item_previewUrl t)"
  by (cases "item_previewUrl t")
    (auto simp: has_preview_def track_of_item_def truthy_str_def replace_first_nonempty)

lemma fetchWithCountry_previews: "t \<in> set (fetchWithCountry cat aid c) \<Longrightarrow> has_preview t"
  by (auto simp: fetchWithCountry_def split: http_response.splits option.splits)

lemma getAlbumTracks_io_cases:
  "getAlbumTracks_io cat aid =
     (if fetchWithCountry cat aid None \<noteq> [] then ([None], fetchWithCountry cat aid None)
      else if fetchWithCountry cat aid (Some ''US'') \<noteq> []
      then ([None, Some ''US''], fetchWithCountry cat aid (Some ''US''))
      else ([None, Some ''US'', Some ''GB''], fetchWithCountry cat aid (Some ''GB'')))"
  by (simp add: getAlbumTracks_io_def Let_def)

lemma getAlbumTracks_previews: "t \<in> set (getAlbumTracks cat aid) \<Longrightarrow> has_preview t"
  by (auto simp: getAlbumTracks_def getAlbumTracks_io_cases fetchWithCountry_previews
      split: if_splits)

text \<open>
  Claim C6. \<^verbatim>\<open>getAlbumTracks\<close> first asks with no storefront. It asks the storefront
  \<^verbatim>\<open>US\<close> only when the first answer held no track with a preview, and the storefront
  \<^verbatim>\<open>GB\<close> only when the second held none either. It returns the first answer that is not
  empty, and the empty list when all three are. Every attempt drops the tracks without a
  preview before its result is tested for emptiness, so every returned track has one.
\<close>

theorem getAlbumTracks_storefront_chain:
  "getAlbumTracks_io cat aid =
     (if fetchWithCountry cat aid None \<noteq> [] then ([None], fetchWithCountry cat aid None)
      else if fetchWithCountry cat aid (Some ''US'') \<noteq> []
      then ([None, Some ''US''], fetchWithCountry cat aid (Some ''US''))
      else ([None, Some ''US'', Some ''GB''], fetchWithCountry cat aid (Some ''GB'')))
   \<and> getAlbumTracks cat aid = snd (getAlbumTracks_io cat aid)
   \<and> (fetchWithCountry cat aid None = [] \<and> fetchWithCountry cat aid (Some ''US'') = []
        \<and> fetchWithCountry cat aid (Some ''GB'') = [] \<longrightarrow> getAlbumTracks cat aid = [])
   \<and> (\<forall>c. \<forall>t \<in> set (fetchWithCountry cat aid c). has_preview t)
   \<and> (\<forall>t \<in> set (getAlbumTracks cat aid). has_preview t)"
proof -
  have "fetchWithCountry cat aid None = [] \<and> fetchWithCountry cat aid (Some ''US'') = []
        \<and> fetchWithCountry cat aid (Some ''GB'') = [] \<longrightarrow> getAlbumTracks cat aid = []"
    by (simp add: getAlbumTracks_def getAlbumTracks_io_cases)
  then show ?thesis
    using getAlbumTracks_io_cases [of cat aid]
    by (simp add: getAlbumTracks_def fetchWithCountry_previews getAlbumTracks_previews
        del: One_nat_def)
qed

theorem getAlbumTracks_storefront_chain_witness:
  "getAlbumTracks_io sample_catalog ''42'' =
     ([None, Some ''US'', Some ''GB''],
      [\<lparr> track_id = ''8'', track_name = ''Outro'', previewUrl = Some ''https://a.b/c.m4a'' \<rparr>])
   \<and> has_preview \<lparr> track_id = ''8'', track_name = ''Outro'', previewUrl = Some ''https://a.b/c.m4a'' \<rparr>"
proof -
  have r: "getAlbumTracks_io sample_catalog ''42'' =
     ([None, Some ''US'', Some ''GB''],
      [\<lparr> track_id = ''8'', track_name = ''Outro'', previewUrl = Some ''https://a.b/c.m4a'' \<rparr>])"
    by code_simp
  from getAlbumTracks_storefront_chain [of sample_catalog "''42''"]
  have "\<forall>t \<in> set (snd (getAlbumTracks_io sample_catalog ''42'')). has_preview t"
    by (simp add: getAlbumTracks_def)
  with r show ?thesis by simp
qed

subsection \<open>Album search\<close>

lemma map_set_keys:
  "map fst (map_set m k v) = (if k \<in> set (map fst m) then map fst m else map fst m @ [k])"
  by (induction m) auto

lemma map_set_distinct: "distinct (map fst m) \<Longrightarrow> distinct (map fst (map_set m k v))"
  by (simp add: map_set_keys)

lemma map_set_subset: "set (map_set m k v) \<subseteq> insert (k, v) (set m)"
  by (induction m) auto

lemma map_of_map_set: "distinct (map fst m) \<Longrightarrow> map_of (map_set m k v) = (map_of m)(k \<mapsto> v)"
  by (induction m) (auto simp: fun_eq_iff)

lemma new_Map_snoc: "new_Map (es @ [e]) = map_set (new_Map es) (fst e) (snd e)"
  by (simp add: new_Map_def)

lemma new_Map_distinct: "distinct (map fst (new_Map es))"
  by (induction es rule: rev_induct)
    (simp_all add: new_Map_snoc map_set_distinct, simp add: new_Map_def)

lemma new_Map_subset: "set (new_Map es) \<subseteq> set es"
proof (induction es rule: rev_induct)
  case Nil
  show ?case by (simp add: new_Map_def)
next
  case (snoc e es)
  have "set (new_Map (es @ [e])) \<subseteq> insert e (set (new_Map es))"
    using map_set_subset [of "new_Map es" "fst e" "snd e"] by (simp add: new_Map_snoc)
  with snoc show ?case by auto
qed

lemma new_Map_keys: "set (map fst (new_Map es)) = set (map fst es)"
  by (induction es rule: rev_induct) (auto simp: new_Map_snoc map_set_keys new_Map_def)

lemma map_of_new_Map: "map_of (new_Map es) = map_of (rev es)"
proof (induction es rule: rev_induct)
  case Nil
  show ?case by (simp add: new_Map_def)
next
  case (snoc e es)
  show ?case
    by (cases e) (simp add: new_Map_snoc map_of_map_set new_Map_distinct snoc)
qed

lemma map_of_rev_last:
  "map_of (rev (map (\<lambda>b. (f b, b)) xs)) k =
     (if \<exists>b \<in> set xs. f b = k then Some (last (filter (\<lambda>b. f b = k) xs)) else None)"
  by (induction xs rule: rev_induct) auto

lemma insert_by_set: "set (insert_by cmp x ys) = insert x (set ys)"
  by (induction ys) auto

lemma js_sort_set: "set (js_sort cmp xs) = set xs"
  by (induction xs) (simp_all add: js_sort_def insert_by_set)

lemma insert_by_distinct:
  "distinct (map f (insert_by cmp x ys)) = distinct (map f (x # ys))"
  by (induction ys) (auto simp: insert_by_set)

lemma js_sort_distinct: "distinct (map f (js_sort cmp xs)) = distinct (map f xs)"
proof (induction xs)
  case Nil
  show ?case by (simp add: js_sort_def)
next
  case (Cons x xs)
  have "js_sort cmp (x # xs) = insert_by cmp x (js_sort cmp xs)"
    by (simp add: js_sort_def)
  then show ?case
    using Cons by (simp add: insert_by_distinct js_sort_set)
qed

lemma sort_compare_year:
  "parseInt (year x) \<noteq> None \<Longrightarrow> parseInt (year y) \<noteq> None \<Longrightarrow>
   sort_compare year_cmp x y = year_num y - year_num x"
  by (auto simp: sort_compare_def year_cmp_def year_num_def)

lemma insert_by_year_sorted:
  assumes "sorted_wrt (\<lambda>a b. year_num b \<le> year_num a) ys"
    and "parseInt (year x) \<noteq> None" and "\<forall>y \<in> set ys. parseInt (year y) \<noteq> None"
  shows "sorted_wrt (\<lambda>a b. year_num b \<le> year_num a) (insert_by year_cmp x ys)"
  using assms
proof (induction ys)
  case Nil
  show ?case by simp
next
  case (Cons y ys)
  then show ?case
    by (auto simp: sort_compare_year insert_by_set)
qed

lemma js_sort_year_sorted:
  "\<forall>a \<in> set xs. parseInt (year a) \<noteq> None \<Longrightarrow>
   sorted_wrt (\<lambda>a b. year_num b \<le> year_num a) (js_sort year_cmp xs)"
proof (induction xs)
  case Nil
  show ?case by (simp add: js_sort_def)
next
  case (Cons x xs)
  have "js_sort year_cmp (x # xs) = insert_by year_cmp x (js_sort year_cmp xs)"
    by (simp add: js_sort_def)
  with Cons show ?case
    by (simp add: insert_by_year_sorted js_sort_set)
qed

lemma searchAlbums_JsonBody:
  "searchAlbums (JsonBody (Some results)) = js_sort year_cmp (unique_albums (found_albums results))"
  by (simp add: searchAlbums_def search_try_def)

lemma unique_albums_entry:
  assumes "a \<in> set (unique_albums found)"
  shows "(album_id a, a) \<in> set (new_Map (map (\<lambda>a. (album_id a, a)) found))"
proof -
  from assms obtain k where k: "(k, a) \<in> set (new_Map (map (\<lambda>a. (album_id a, a)) found))"
    by (auto simp: unique_albums_def map_values_def)
  with new_Map_subset [of "map (\<lambda>a. (album_id a, a)) found"] have "k = album_id a"
    by auto
  with k show ?thesis by simp
qed

lemma unique_albums_ids:
  "map album_id (unique_albums found) = map fst (new_Map (map (\<lambda>a. (album_id a, a)) found))"
proof -
  have "\<forall>p \<in> set (new_Map (map (\<lambda>a. (album_id a, a)) found)). album_id (snd p) = fst p"
    using new_Map_subset [of "map (\<lambda>a. (album_id a, a)) found"] by auto
  then show ?thesis
    by (simp add: unique_albums_def map_values_def)
qed

lemma unique_albums_distinct: "distinct (map album_id (unique_albums found))"
  by (simp add: unique_albums_ids new_Map_distinct)

lemma unique_albums_last:
  assumes "a \<in> set (unique_albums found)"
  shows "a \<in> set found \<and> last (filter (\<lambda>b. album_id b = album_id a) found) = a"
proof -
  let ?es = "map (\<lambda>a. (album_id a, a)) found"
  have "(album_id a, a) \<in> set (new_Map ?es)"
    using assms by (rule unique_albums_entry)
  then have "map_of (new_Map ?es) (album_id a) = Some a"
    by (simp add: new_Map_distinct)
  then have m: "map_of (rev ?es) (album_id a) = Some a"
    by (simp add: map_of_new_Map)
  then have "last (filter (\<lambda>b. album_id b = album_id a) found) = a"
    by (simp add: map_of_rev_last split: if_splits)
  moreover have "a \<in> set found"
    using map_of_SomeD [OF m] by auto
  ultimately show ?thesis by simp
qed

lemma unique_albums_id_set: "album_id ` set (unique_albums found) = album_id ` set found"
proof -
  have "set (map album_id (unique_albums found))
      = set (map fst (map (\<lambda>a. (album_id a, a)) found))"
    by (simp only: unique_albums_ids new_Map_keys)
  then show ?thesis by (simp add: image_image comp_def)
qed

text \<open>
  Claim C7, as the code has it. \<^verbatim>\<open>searchAlbums\<close> never throws: whatever the \<^verbatim>\<open>try\<close> block
  throws becomes the empty list. On a body with results, the returned albums have
  pairwise distinct ids, the ids are those of the usable items, and the album kept for
  an id is the last one seen with it. The result is in descending order of year whenever
  every year parses as a number. (With a year that does not parse, the comparator
  answers \<^verbatim>\<open>NaN\<close>, which the sort reads as "equal": no order is promised then.)
\<close>

theorem searchAlbums_dedup_sorted:
  "(\<forall>e. search_try resp = Inl e \<longrightarrow> searchAlbums resp = [])
   \<and> (\<forall>results. resp = JsonBody (Some results) \<longrightarrow>
        distinct (map album_id (searchAlbums resp))
      \<and> album_id ` set (searchAlbums resp) = album_id ` set (found_albums results)
      \<and> (\<forall>a \<in> set (searchAlbums resp).
            a \<in> set (found_albums results)
          \<and> last (filter (\<lambda>b. album_id b = album_id a) (found_albums results)) = a)
      \<and> ((\<forall>a \<in> set (found_albums results). parseInt (year a) \<noteq> None) \<longrightarrow>
            sorted_wrt (\<lambda>a b. year_num b \<le> year_num a) (searchAlbums resp)))"
proof -
  have soft: "\<forall>e. search_try resp = Inl e \<longrightarrow> searchAlbums resp = []"
    by (simp add: searchAlbums_def)
  have body: "distinct (map album_id (searchAlbums resp))
      \<and> album_id ` set (searchAlbums resp) = album_id ` set (found_albums results)
      \<and> (\<forall>a \<in> set (searchAlbums resp).
            a \<in> set (found_albums results)
          \<and> last (filter (\<lambda>b. album_id b = album_id a) (found_albums results)) = a)
      \<and> ((\<forall>a \<in> set (found_albums results). parseInt (year a) \<noteq> None) \<longrightarrow>
            sorted_wrt (\<lambda>a b. year_num b \<le> year_num a) (searchAlbums resp))"
    if r: "resp = JsonBody (Some results)" for results
  proof -
    let ?u = "unique_albums (found_albums results)"
    have eq: "searchAlbums resp = js_sort year_cmp ?u"
      using r by (simp add: searchAlbums_JsonBody)
    have d: "distinct (map album_id (searchAlbums resp))"
      by (simp add: eq js_sort_distinct unique_albums_distinct)
    have i: "album_id ` set (searchAlbums resp) = album_id ` set (found_albums results)"
      by (simp add: eq js_sort_set unique_albums_id_set)
    have l: "\<forall>a \<in> set (searchAlbums resp).
            a \<in> set (found_albums results)
          \<and> last (filter (\<lambda>b. album_id b = album_id a) (found_albums results)) = a"
      using unique_albums_last [of _ "found_albums results"] by (simp add: eq js_sort_set)
    have s: "(\<forall>a \<in> set (found_albums results). parseInt (year a) \<noteq> None) \<longrightarrow>
            sorted_wrt (\<lambda>a b. year_num b \<le> year_num a) (searchAlbums resp)"
    proof
      assume p: "\<forall>a \<in> set (found_albums results). parseInt (year a) \<noteq> None"
      have "\<forall>a \<in> set ?u. parseInt (year a) \<noteq> None"
        using p unique_albums_last [of _ "found_albums results"] by blast
      then show "sorted_wrt (\<lambda>a b. year_num b \<le> year_num a) (searchAlbums resp)"
        unfolding eq by (rule js_sort_year_sorted)
    qed
    from d i l s show ?thesis by blast
  qed
  from soft body show ?thesis by blast
qed

theorem searchAlbums_dedup_sorted_witness:
  "searchAlbums sample_search =
     [\<lparr> album_id = ''2'', album_name = ''B'', artist = ''X'', year = ''2000'',
        imageUrl = ''http://x/600x600bb.jpg'' \<rparr>,
      \<lparr> album_id = ''1'', album_name = ''A2'', artist = ''Unknown Artist'', year = ''1998'',
        imageUrl = [] \<rparr>]
   \<and> map (\<lambda>a. parseInt (year a)) (found_albums
          [\<lparr> collectionId = Some 1, collectionName = Some ''A'', artistName = None,
             releaseDate = Some ''1999-05-01'', artworkUrl100 = None \<rparr>,
           \<lparr> collectionId = Some 2, collectionName = Some ''B'', artistName = Some ''X'',
             releaseDate = Some ''2000-01-01T00:00:00Z'',
             artworkUrl100 = Some ''http://x/100x100bb.jpg'' \<rparr>,
           \<lparr> collectionId = Some 1, collectionName = Some ''A2'', artistName = None,
             releaseDate = Some ''1998-05-01'', artworkUrl100 = None \<rparr>])
       = [Some 1999, Some 2000, Some 1998]
   \<and> distinct (map album_id (searchAlbums sample_search))
   \<and> sorted_wrt (\<lambda>a b. year_num b \<le> year_num a) (searchAlbums sample_search)"
proof -
  let ?items = "[\<lparr> collectionId = Some 1, collectionName = Some ''A'', artistName = None,
             releaseDate = Some ''1999-05-01'', artworkUrl100 = None \<rparr>,
           \<lparr> collectionId = Some 2, collectionName = Some ''B'', artistName = Some ''X'',
             releaseDate = Some ''2000-01-01T00:00:00Z'',
             artworkUrl100 = Some ''http://x/100x100bb.jpg'' \<rparr>,
           \<lparr> collectionId = Some 1, collectionName = Some ''A2'', artistName = None,
             releaseDate = Some ''1998-05-01'', artworkUrl100 = None \<rparr>]"
  have v: "searchAlbums sample_search =
     [\<lparr> album_id = ''2'', album_name = ''B'', artist = ''X'', year = ''2000'',
        imageUrl = ''http://x/600x600bb.jpg'' \<rparr>,
      \<lparr> album_id = ''1'', album_name = ''A2'', artist = ''Unknown Artist'', year = ''1998'',
        imageUrl = [] \<rparr>]"
    by code_simp
  have r: "sample_search = JsonBody (Some ?items)"
    by (simp add: sample_search_def)
  have y: "map (\<lambda>a. parseInt (year a)) (found_albums ?items) = [Some 1999, Some 2000, Some 1998]"
    by code_simp
  have "list_all (\<lambda>a. parseInt (year a) \<noteq> None) (found_albums ?items)"
    by code_simp
  then have p: "\<forall>a \<in> set (found_albums ?items). parseInt (year a) \<noteq> None"
    by (simp only: list_all_iff)
  from searchAlbums_dedup_sorted [of sample_search] r p
  have "distinct (map album_id (searchAlbums sample_search))
      \<and> sorted_wrt (\<lambda>a b. year_num b \<le> year_num a) (searchAlbums sample_search)"
    by blast
  with v y show ?thesis by blast
qed

text \<open>
  The claim as the specification words it fails: an album without a release date gets the
  year \<^verbatim>\<open>N/A\<close>, the comparator answers \<^verbatim>\<open>NaN\<close> for it, and the stable sort leaves it
  in front of an album of the year 2000.
\<close>

theorem searchAlbums_undated_first:
  "map year (searchAlbums undated_search) = [''N/A'', ''2000'']
   \<and> \<not> sorted_wrt spec_year_ge (searchAlbums undated_search)"
  by code_simp

section \<open>Properties of the challenge generator\<close>

lemma mset_pick: "i < length xs \<Longrightarrow> mset (xs ! i # take i xs @ drop (Suc i) xs) = mset xs"
proof -
  assume "i < length xs"
  then have "xs = take i xs @ xs ! i # drop (Suc i) xs"
    by (rule id_take_nth_drop)
  then have "mset xs = mset (take i xs @ xs ! i # drop (Suc i) xs)"
    by simp
  then show ?thesis by simp
qed

lemma mset_shuffle: "mset (shuffle rs xs) = mset xs"
proof (induction rs arbitrary: xs)
  case Nil
  show ?case by simp
next
  case (Cons r rs)
  show ?case
  proof (cases "xs = []")
    case True
    then show ?thesis by simp
  next
    case False
    then have i: "random_index r (length xs) < length xs"
      by (simp add: random_index_def)
    have "mset (shuffle (r # rs) xs)
        = mset (xs ! random_index r (length xs)
                # take (random_index r (length xs)) xs @ drop (Suc (random_index r (length xs))) xs)"
      using False by (simp add: Let_def Cons.IH)
    also have "\<dots> = mset xs"
      using i by (rule mset_pick)
    finally show ?thesis .
  qed
qed

lemma set_shuffle: "set (shuffle rs xs) = set xs"
  using mset_shuffle [of rs xs] by (rule mset_eq_setD)

lemma length_shuffle: "length (shuffle rs xs) = length xs"
  using mset_shuffle [of rs xs] by (rule mset_eq_length)

lemma shuffle_Nil_iff: "shuffle rs xs = [] \<longleftrightarrow> xs = []"
  using length_shuffle [of rs xs] by (metis length_0_conv)

lemma distinct_map_shuffle: "distinct (map f (shuffle rs xs)) = distinct (map f xs)"
proof -
  have "mset (map f (shuffle rs xs)) = mset (map f xs)"
    by (simp add: mset_shuffle)
  then show ?thesis by (rule mset_eq_imp_distinct_iff)
qed

lemma rethrown_undefined_access: "\<not> rethrown undefined_access"
  by code_simp

lemma ai_challenge_Inl:
  assumes "spotifyTracks \<noteq> []" and "ai_challenge spotifyTracks env = Inl e"
  shows "ai env = AiFailed e \<or> e = undefined_access"
  using assms
  by (auto simp: ai_challenge_def split: ai_outcome.splits option.splits list.splits)

lemma local_fallback_nonempty:
  assumes "spotifyTracks \<noteq> []"
  shows "\<exists>chal rest. local_fallback album spotifyTracks env = Inr chal
           \<and> shuffle (fallback_track_shuffle env) spotifyTracks = correctTrack chal # rest
           \<and> options chal = shuffle (fallback_option_shuffle env) (correctTrack chal # take 3 rest)
           \<and> snippetDescription chal = survival_text @ album_name album"
proof -
  from assms obtain c rest where "shuffle (fallback_track_shuffle env) spotifyTracks = c # rest"
    by (cases "shuffle (fallback_track_shuffle env) spotifyTracks") (auto simp: shuffle_Nil_iff)
  then show ?thesis
    by (simp add: local_fallback_def)
qed

text \<open>
  Claim C3, as the code has it. Given at least one track, \<^verbatim>\<open>getAlbumChallenge\<close> throws
  exactly when the AI call failed with an error whose message contains \<^verbatim>\<open>quota\<close> or
  contains \<^verbatim>\<open>429\<close>, and what it throws is that error, unchanged. Every other failure of
  the \<^verbatim>\<open>try\<close> block gives the local fallback: the tracks are shuffled, the first is the
  correct one, the options are it and the next three in some order, and the description
  is the fixed sentence followed by the album's name.
\<close>

theorem getAlbumChallenge_failure_paths:
  assumes "spotifyTracks \<noteq> []"
  shows "(\<forall>e. ai env = AiFailed e \<and> rethrown e \<longrightarrow>
            getAlbumChallenge album spotifyTracks d env = Inl e)
       \<and> (\<forall>e. getAlbumChallenge album spotifyTracks d env = Inl e \<longrightarrow>
            ai env = AiFailed e \<and> rethrown e)
       \<and> (\<forall>e. ai_challenge spotifyTracks env = Inl e \<and> \<not> rethrown e \<longrightarrow>
            (\<exists>chal rest.
                getAlbumChallenge album spotifyTracks d env = Inr chal
              \<and> shuffle (fallback_track_shuffle env) spotifyTracks = correctTrack chal # rest
              \<and> mset (options chal) = mset (correctTrack chal # take 3 rest)
              \<and> snippetDescription chal = survival_text @ album_name album))"
proof (intro conjI allI impI)
  fix e assume "ai env = AiFailed e \<and> rethrown e"
  then show "getAlbumChallenge album spotifyTracks d env = Inl e"
    by (simp add: getAlbumChallenge_def ai_challenge_def)
next
  fix e assume r: "getAlbumChallenge album spotifyTracks d env = Inl e"
  from local_fallback_nonempty [OF assms, of album env]
  have nf: "local_fallback album spotifyTracks env \<noteq> Inl e" by auto
  from r nf have a: "ai_challenge spotifyTracks env = Inl e" and t: "rethrown e"
    by (auto simp: getAlbumChallenge_def split: sum.splits if_splits)
  from ai_challenge_Inl [OF assms a] t rethrown_undefined_access
  have "ai env = AiFailed e" by auto
  with t show "ai env = AiFailed e" "rethrown e" by simp_all
next
  fix e assume a: "ai_challenge spotifyTracks env = Inl e \<and> \<not> rethrown e"
  from local_fallback_nonempty [OF assms, of album env]
  obtain chal rest where f: "local_fallback album spotifyTracks env = Inr chal"
    and s: "shuffle (fallback_track_shuffle env) spotifyTracks = correctTrack chal # rest"
    and "options chal = shuffle (fallback_option_shuffle env) (correctTrack chal # take 3 rest)"
    and n: "snippetDescription chal = survival_text @ album_name album"
    by blast
  then have m: "mset (options chal) = mset (correctTrack chal # take 3 rest)"
    by (simp only: mset_shuffle)
  from a f have "getAlbumChallenge album spotifyTracks d env = Inr chal"
    by (simp add: getAlbumChallenge_def)
  with s m n show "\<exists>chal rest.
                getAlbumChallenge album spotifyTracks d env = Inr chal
              \<and> shuffle (fallback_track_shuffle env) spotifyTracks = correctTrack chal # rest
              \<and> mset (options chal) = mset (correctTrack chal # take 3 rest)
              \<and> snippetDescription chal = survival_text @ album_name album"
    by blast
qed

theorem getAlbumChallenge_failure_paths_witness:
  "[track_a, track_b] \<noteq> []
   \<and> rethrown quota_exceeded
   \<and> getAlbumChallenge sample_album [track_a, track_b] MEDIUM (env_failing quota_exceeded)
       = Inl quota_exceeded
   \<and> \<not> rethrown network_down
   \<and> getAlbumChallenge sample_album [track_a, track_b] MEDIUM (env_failing network_down)
       = Inr \<lparr> correctTrack = track_a, options = [track_a, track_b],
               snippetDescription = survival_text @ ''Letters'' \<rparr>"
proof -
  have n: "[track_a, track_b] \<noteq> []" by simp
  have q: "ai (env_failing quota_exceeded) = AiFailed quota_exceeded \<and> rethrown quota_exceeded"
    by code_simp
  from getAlbumChallenge_failure_paths [OF n, of "env_failing quota_exceeded" sample_album MEDIUM] q
  have "getAlbumChallenge sample_album [track_a, track_b] MEDIUM (env_failing quota_exceeded)
       = Inl quota_exceeded"
    by blast
  moreover have "\<not> rethrown network_down
   \<and> getAlbumChallenge sample_album [track_a, track_b] MEDIUM (env_failing network_down)
       = Inr \<lparr> correctTrack = track_a, options = [track_a, track_b],
               snippetDescription = survival_text @ ''Letters'' \<rparr>"
    by code_simp
  ultimately show ?thesis using q by simp
qed

text \<open>
  The claim as the specification words it fails: an error that carries the numeric
  status 429, with a message that names neither, is a quota error for the round
  controller's test but is not thrown again; the fallback challenge is returned.
\<close>

theorem getAlbumChallenge_status_429_swallowed:
  "quota_class status_429
   \<and> getAlbumChallenge sample_album [track_a, track_b] MEDIUM (env_failing status_429)
       = Inr \<lparr> correctTrack = track_a, options = [track_a, track_b],
               snippetDescription = survival_text @ ''Letters'' \<rparr>"
  by code_simp

subsection \<open>What a generated challenge is made of\<close>

lemma find_by_name_in: "find_by_name tracks n = Some t \<Longrightarrow> t \<in> set tracks"
  by (auto simp: find_by_name_def find_Some_iff)

lemma wrong_tracks_subset:
  assumes "tracks \<noteq> []"
  shows "set (wrong_tracks tracks pick names) \<subseteq> set tracks"
proof -
  have "random_index r (length tracks) < length tracks" for r
    using assms by (simp add: random_index_def)
  then show ?thesis
    by (auto simp: wrong_tracks_def find_by_name_in split: option.splits)
qed

lemma length_wrong_tracks: "length (wrong_tracks tracks pick names) = length names"
  by (simp add: wrong_tracks_def)

lemma ai_challenge_Inr:
  assumes "ai_challenge tracks g = Inr chal"
  shows "correctTrack chal \<in> set tracks
       \<and> set (options chal) \<subseteq> set tracks
       \<and> correctTrack chal \<in> set (options chal)
       \<and> 1 \<le> length (options chal) \<and> length (options chal) \<le> 4"
proof -
  from assms obtain data c names where d: "ai g = AiReplied data"
    and n: "wrongTrackNames data = Some names"
    and c: "(case (case correctTrackName data of
                         Some n \<Rightarrow> find_by_name tracks n | None \<Rightarrow> None) of
                   Some t \<Rightarrow> Some t
                 | None \<Rightarrow> (case tracks of [] \<Rightarrow> None | t # ts \<Rightarrow> Some t)) = Some c"
    and chal: "chal = \<lparr> correctTrack = c,
                          options = shuffle (ai_shuffle g)
                            (take 4 (c # wrong_tracks tracks (wrong_pick g) names)),
                          snippetDescription = vibeDescription data \<rparr>"
    by (auto simp: ai_challenge_def split: ai_outcome.splits option.splits)
  from c have cin: "c \<in> set tracks"
    by (auto simp: find_by_name_in split: option.splits list.splits)
  then have ne: "tracks \<noteq> []" by auto
  have "set (take 4 (c # wrong_tracks tracks (wrong_pick g) names))
          \<subseteq> set (c # wrong_tracks tracks (wrong_pick g) names)"
    by (rule set_take_subset)
  with cin wrong_tracks_subset [OF ne, of "wrong_pick g" names]
  have sub: "set (take 4 (c # wrong_tracks tracks (wrong_pick g) names)) \<subseteq> set tracks"
    by auto
  have hd: "c \<in> set (take 4 (c # wrong_tracks tracks (wrong_pick g) names))"
    by (simp add: take_Cons')
  have len: "length (take 4 (c # wrong_tracks tracks (wrong_pick g) names)) = min 4 (Suc (length names))"
    by (simp add: length_wrong_tracks min.commute)
  show ?thesis
    using cin sub hd len by (simp add: chal set_shuffle length_shuffle)
qed

lemma local_fallback_Inr:
  assumes "local_fallback album tracks g = Inr chal"
  shows "correctTrack chal \<in> set tracks
       \<and> set (options chal) \<subseteq> set tracks
       \<and> correctTrack chal \<in> set (options chal)
       \<and> length (options chal) = min 4 (length tracks)
       \<and> (length tracks \<le> 4 \<longrightarrow> set (options chal) = set tracks)
       \<and> (distinct (map track_id tracks) \<longrightarrow> distinct (map track_id (options chal)))"
proof -
  let ?sh = "shuffle (fallback_track_shuffle g) tracks"
  from assms obtain c rest where sh: "?sh = c # rest"
    and chal: "chal = \<lparr> correctTrack = c,
                       options = shuffle (fallback_option_shuffle g) (c # take 3 rest),
                       snippetDescription = survival_text @ album_name album \<rparr>"
    by (auto simp: local_fallback_def Let_def split: list.splits)
  have st: "set (c # rest) = set tracks"
    using set_shuffle [of "fallback_track_shuffle g" tracks] by (simp add: sh)
  have lt: "Suc (length rest) = length tracks"
    using length_shuffle [of "fallback_track_shuffle g" tracks] by (simp add: sh)
  have sub: "set (c # take 3 rest) \<subseteq> set tracks"
    using st set_take_subset [of 3 rest] by auto
  have full: "length tracks \<le> 4 \<longrightarrow> set (c # take 3 rest) = set tracks"
    using st lt by auto
  have dist: "distinct (map track_id tracks) \<longrightarrow> distinct (map track_id (c # take 3 rest))"
  proof
    assume "distinct (map track_id tracks)"
    then have "distinct (map track_id (c # rest))"
      using distinct_map_shuffle [of track_id "fallback_track_shuffle g" tracks] by (simp add: sh)
    then show "distinct (map track_id (c # take 3 rest))"
      using set_take_subset [of 3 rest] by (auto simp: distinct_map intro: inj_on_subset dest: in_set_takeD)
  qed
  have len: "length (c # take 3 rest) = min 4 (length tracks)"
    using lt by auto
  from st have cin: "c \<in> set tracks" by auto
  show ?thesis
    using cin sub full dist len
    by (simp add: chal set_shuffle length_shuffle distinct_map_shuffle del: distinct.simps list.map)
qed

lemma getAlbumChallenge_Inr:
  assumes "getAlbumChallenge album tracks d g = Inr chal"
  shows "correctTrack chal \<in> set tracks
       \<and> set (options chal) \<subseteq> set tracks
       \<and> correctTrack chal \<in> set (options chal)
       \<and> 1 \<le> length (options chal) \<and> length (options chal) \<le> 4"
proof (cases "ai_challenge tracks g")
  case (Inr c)
  with assms have "ai_challenge tracks g = Inr chal"
    by (simp add: getAlbumChallenge_def)
  then show ?thesis by (rule ai_challenge_Inr)
next
  case (Inl e)
  with assms have f: "local_fallback album tracks g = Inr chal"
    by (simp add: getAlbumChallenge_def split: if_splits)
  from local_fallback_Inr [OF f] have c: "correctTrack chal \<in> set tracks"
    and rest: "set (options chal) \<subseteq> set tracks" "correctTrack chal \<in> set (options chal)"
      "length (options chal) = min 4 (length tracks)"
    by simp_all
  from c have "1 \<le> length tracks" by (cases tracks) auto
  with c rest show ?thesis by simp
qed


section \<open>Properties of the round controller\<close>

subsection \<open>Calls from the render of the state\<close>

lemma render_of_fields [simp]:
  "r_gameState (render_of s) = gameState s"
  "r_difficulty (render_of s) = difficulty s"
  "r_selectedSource (render_of s) = selectedSource s"
  "r_challenge (render_of s) = challenge s"
  "r_completedAlbums (render_of s) = completedAlbums s"
  "r_currentAlbumTracks (render_of s) = currentAlbumTracks s"
  "r_playedTrackIds (render_of s) = playedTrackIds s"
  by (simp_all add: render_of_def)

lemma markAlbumComplete_eq:
  "markAlbumComplete s i =
     (if i \<notin> set (completedAlbums s)
      then s\<lparr> completedAlbums := completedAlbums s @ [i],
              stored_completed := Some (completedAlbums s @ [i]) \<rparr>
      else s)"
  by (simp add: markAlbumComplete_def markAlbumComplete_of_def)

lemma render_of_flags:
  "render_of (s\<lparr> isVictory := v, isVictoryRef := w, isFiring := f, isAudioPlaying := p \<rparr>)
     = render_of s"
  by (simp add: render_of_def)

lemma nextRound_eq:
  "nextRound s env =
     (let s1 = s\<lparr> isVictory := False, isVictoryRef := False, isFiring := False,
                  isAudioPlaying := False \<rparr>
      in case selectedSource s of
           Some source \<Rightarrow> startChallenge s1 source False env
         | None \<Rightarrow> s1)"
  by (simp add: nextRound_def startChallenge_def render_of_flags Let_def split: option.splits)

lemma startChallenge_eq:
  "startChallenge s album isNewAlbum env =
     (let s0 = s\<lparr> isLoading := True, isQuotaError := False, hasNoSamplesError := False \<rparr>;
          tracks = round_tracks s album isNewAlbum env;
          localPlayedIds = round_played s isNewAlbum;
          s1 = (if isNewAlbum
                then s0\<lparr> selectedSource := Some album, messageKey := loadingTracks \<rparr>
                else s0)
      in if isNewAlbum \<and> length tracks = 0
         then s1\<lparr> messageKey := noSamples, hasNoSamplesError := True, isLoading := False \<rparr>
         else
          (let s2 = (if isNewAlbum
                     then s1\<lparr> currentAlbumTracks := tracks, playedTrackIds := localPlayedIds,
                              replaysRemaining := 2 \<rparr>
                     else s1);
               remainingTracks = remaining_tracks s album isNewAlbum env
           in if length remainingTracks = 0
              then (case selectedSource s of
                      Some source \<Rightarrow> markAlbumComplete (s2\<lparr> gameState := SURVIVED \<rparr>) (album_id source)
                    | None \<Rightarrow> s2\<lparr> gameState := SURVIVED \<rparr>) \<lparr> isLoading := False \<rparr>
              else
               (case getAlbumChallenge album tracks (difficulty s) (gen_of env) of
                  Inr chal \<Rightarrow>
                    (let healed = self_heal localPlayedIds remainingTracks env chal
                     in (playSnippet (render_of s)
                           (s2\<lparr> challenge := Some healed,
                                lastCorrectTrack := Some (track_name (correctTrack healed)),
                                gameState := PLAYING \<rparr>)
                           (previewUrl (correctTrack healed))) \<lparr> isLoading := False \<rparr>)
                | Inl err \<Rightarrow>
                    (if quota_class err
                     then s2\<lparr> isQuotaError := True, messageKey := quotaTitle \<rparr>
                     else s2\<lparr> messageKey := communicationError \<rparr>) \<lparr> isLoading := False \<rparr>)))"
proof (cases isNewAlbum)
  case True
  then show ?thesis
    by (simp add: startChallenge_def startChallenge_of_def round_tracks_def round_played_def
      remaining_tracks_def markAlbumComplete_eq markAlbumComplete_of_def Let_def
      split: option.splits sum.splits)
next
  case False
  then show ?thesis
    by (simp add: startChallenge_def startChallenge_of_def round_tracks_def round_played_def
      remaining_tracks_def markAlbumComplete_eq markAlbumComplete_of_def Let_def
      split: option.splits sum.splits)
qed

subsection \<open>The four ways round-start ends\<close>

lemma remaining_nonempty_tracks:
  "remaining_tracks s album isNewAlbum env \<noteq> [] \<Longrightarrow> round_tracks s album isNewAlbum env \<noteq> []"
  by (auto simp: remaining_tracks_def)

lemma startChallenge_no_samples:
  assumes "isNewAlbum" and "round_tracks s album isNewAlbum env = []"
  shows "startChallenge s album isNewAlbum env =
           s\<lparr> isLoading := False, isQuotaError := False, hasNoSamplesError := True,
              selectedSource := Some album, messageKey := noSamples \<rparr>"
  using assms by (simp add: startChallenge_eq)

lemma startChallenge_survived:
  assumes "\<not> (isNewAlbum \<and> round_tracks s album isNewAlbum env = [])"
    and "remaining_tracks s album isNewAlbum env = []"
  shows "startChallenge s album isNewAlbum env =
           (case selectedSource s of
              Some source \<Rightarrow>
                markAlbumComplete (loaded s album isNewAlbum env \<lparr> gameState := SURVIVED \<rparr>) (album_id source)
            | None \<Rightarrow> loaded s album isNewAlbum env \<lparr> gameState := SURVIVED \<rparr>) \<lparr> isLoading := False \<rparr>"
  using assms by (auto simp: startChallenge_eq loaded_def round_played_def split: option.splits)

lemma startChallenge_started:
  assumes "remaining_tracks s album isNewAlbum env \<noteq> []"
    and "getAlbumChallenge album (round_tracks s album isNewAlbum env) (difficulty s) (gen_of env) = Inr chal"
    and "healed = self_heal (round_played s isNewAlbum) (remaining_tracks s album isNewAlbum env) env chal"
  shows "startChallenge s album isNewAlbum env =
           (playSnippet (render_of s)
              (loaded s album isNewAlbum env
                 \<lparr> challenge := Some healed,
                   lastCorrectTrack := Some (track_name (correctTrack healed)),
                   gameState := PLAYING \<rparr>)
              (previewUrl (correctTrack healed))) \<lparr> isLoading := False \<rparr>"
  using assms remaining_nonempty_tracks [OF assms(1)]
  by (simp add: startChallenge_eq loaded_def round_played_def Let_def)

lemma startChallenge_failed:
  assumes "remaining_tracks s album isNewAlbum env \<noteq> []"
    and "getAlbumChallenge album (round_tracks s album isNewAlbum env) (difficulty s) (gen_of env) = Inl err"
  shows "startChallenge s album isNewAlbum env =
           (if quota_class err
            then loaded s album isNewAlbum env \<lparr> isQuotaError := True, messageKey := quotaTitle \<rparr>
            else loaded s album isNewAlbum env \<lparr> messageKey := communicationError \<rparr>) \<lparr> isLoading := False \<rparr>"
  using assms remaining_nonempty_tracks [OF assms(1)]
  by (simp add: startChallenge_eq loaded_def round_played_def Let_def)

lemma startChallenge_cases [case_names no_samples survived started failed]:
  obtains
    "isNewAlbum" and "round_tracks s album isNewAlbum env = []"
  | "\<not> (isNewAlbum \<and> round_tracks s album isNewAlbum env = [])"
      and "remaining_tracks s album isNewAlbum env = []"
  | chal where "remaining_tracks s album isNewAlbum env \<noteq> []"
      and "getAlbumChallenge album (round_tracks s album isNewAlbum env) (difficulty s) (gen_of env) = Inr chal"
  | err where "remaining_tracks s album isNewAlbum env \<noteq> []"
      and "getAlbumChallenge album (round_tracks s album isNewAlbum env) (difficulty s) (gen_of env) = Inl err"
proof (cases "isNewAlbum \<and> round_tracks s album isNewAlbum env = []")
  case True
  then show ?thesis using that(1) by blast
next
  case nt: False
  show ?thesis
  proof (cases "remaining_tracks s album isNewAlbum env = []")
    case True
    with nt show ?thesis using that(2) by blast
  next
    case False
    then show ?thesis
      using that(3,4)
      by (cases "getAlbumChallenge album (round_tracks s album isNewAlbum env) (difficulty s) (gen_of env)") blast+
  qed
qed

text \<open>fields that round-start never touches\<close>

lemma startChallenge_score [simp]: "score (startChallenge s album isNewAlbum env) = score s"
  by (cases rule: startChallenge_cases [of isNewAlbum s album env])
    (simp_all add: startChallenge_no_samples startChallenge_survived startChallenge_started
      startChallenge_failed loaded_def markAlbumComplete_eq playSnippet_def split: option.splits)

lemma startChallenge_highScore [simp]: "highScore (startChallenge s album isNewAlbum env) = highScore s"
  by (cases rule: startChallenge_cases [of isNewAlbum s album env])
    (simp_all add: startChallenge_no_samples startChallenge_survived startChallenge_started
      startChallenge_failed loaded_def markAlbumComplete_eq playSnippet_def split: option.splits)

lemma startChallenge_stored_highscore [simp]:
  "stored_highscore (startChallenge s album isNewAlbum env) = stored_highscore s"
  by (cases rule: startChallenge_cases [of isNewAlbum s album env])
    (simp_all add: startChallenge_no_samples startChallenge_survived startChallenge_started
      startChallenge_failed loaded_def markAlbumComplete_eq playSnippet_def split: option.splits)

lemma startChallenge_isVictory [simp]: "isVictory (startChallenge s album isNewAlbum env) = isVictory s"
  by (cases rule: startChallenge_cases [of isNewAlbum s album env])
    (simp_all add: startChallenge_no_samples startChallenge_survived startChallenge_started
      startChallenge_failed loaded_def markAlbumComplete_eq playSnippet_def split: option.splits)

lemma startChallenge_isFiring [simp]: "isFiring (startChallenge s album isNewAlbum env) = isFiring s"
  by (cases rule: startChallenge_cases [of isNewAlbum s album env])
    (simp_all add: startChallenge_no_samples startChallenge_survived startChallenge_started
      startChallenge_failed loaded_def markAlbumComplete_eq playSnippet_def split: option.splits)

lemma startChallenge_isLoading [simp]: "\<not> isLoading (startChallenge s album isNewAlbum env)"
  by (cases rule: startChallenge_cases [of isNewAlbum s album env])
    (simp_all add: startChallenge_no_samples startChallenge_survived startChallenge_started
      startChallenge_failed loaded_def markAlbumComplete_eq playSnippet_def split: option.splits)

lemma startChallenge_difficulty [simp]: "difficulty (startChallenge s album isNewAlbum env) = difficulty s"
  by (cases rule: startChallenge_cases [of isNewAlbum s album env])
    (simp_all add: startChallenge_no_samples startChallenge_survived startChallenge_started
      startChallenge_failed loaded_def markAlbumComplete_eq playSnippet_def split: option.splits)


subsection \<open>The self-healing check\<close>

lemma round_tracks_previews:
  assumes "\<forall>t \<in> set (currentAlbumTracks s). has_preview t"
  shows "\<forall>t \<in> set (round_tracks s album isNewAlbum env). has_preview t"
  using assms by (simp add: round_tracks_def)

lemma remaining_tracks_set:
  "set (remaining_tracks s album isNewAlbum env) =
     {t \<in> set (round_tracks s album isNewAlbum env). track_id t \<notin> round_played s isNewAlbum}"
  by (simp add: remaining_tracks_def)

lemma heal_pick_in:
  "remaining \<noteq> [] \<Longrightarrow> remaining ! random_index r (length remaining) \<in> set remaining"
  by (simp add: random_index_def)

lemma find_None_ids: "(find (\<lambda>opt. f opt = k) xs = None) = (k \<notin> f ` set xs)"
  by (auto simp: find_None_iff)

lemma self_heal_correct:
  assumes "remaining \<noteq> []" and "\<forall>t \<in> set remaining. track_id t \<notin> played \<and> has_preview t"
  shows "track_id (correctTrack (self_heal played remaining env chal)) \<notin> played
       \<and> has_preview (correctTrack (self_heal played remaining env chal))"
  using assms heal_pick_in [OF assms(1), of "heal_pick env"]
  by (auto simp: self_heal_def Let_def)

lemma self_heal_correct_in:
  assumes "remaining \<noteq> []" and "set remaining \<subseteq> T" and "correctTrack chal \<in> T"
  shows "correctTrack (self_heal played remaining env chal) \<in> T"
  using assms heal_pick_in [OF assms(1), of "heal_pick env"]
  by (auto simp: self_heal_def Let_def)

lemma self_heal_options_subset:
  assumes "remaining \<noteq> []" and "set remaining \<subseteq> T" and "set (options chal) \<subseteq> T"
  shows "set (options (self_heal played remaining env chal)) \<subseteq> T"
proof -
  have "set (take 3 (options chal)) \<subseteq> T"
    using assms(3) set_take_subset [of 3 "options chal"] by blast
  then show ?thesis
    using assms heal_pick_in [OF assms(1), of "heal_pick env"]
    by (auto simp: self_heal_def Let_def set_shuffle)
qed

lemma self_heal_contains:
  assumes "correctTrack chal \<in> set (options chal)"
  shows "track_id (correctTrack (self_heal played remaining env chal))
           \<in> track_id ` set (options (self_heal played remaining env chal))"
  using assms
  by (auto simp: self_heal_def Let_def set_shuffle find_None_ids)

lemma self_heal_length:
  assumes "1 \<le> length (options chal)" and "length (options chal) \<le> 4"
  shows "1 \<le> length (options (self_heal played remaining env chal))
       \<and> length (options (self_heal played remaining env chal)) \<le> 4"
  using assms by (auto simp: self_heal_def Let_def length_shuffle)

lemma self_heal_distinct:
  assumes "distinct (map track_id (options chal))"
  shows "distinct (map track_id (options (self_heal played remaining env chal)))"
proof -
  have d3: "distinct (map track_id (take 3 (options chal)))"
    using assms by (simp add: take_map [symmetric] distinct_take)
  have "k \<notin> track_id ` set (options chal) \<Longrightarrow> k \<notin> track_id ` set (take 3 (options chal))" for k
    using set_take_subset [of 3 "options chal"] by blast
  with d3 have "k \<notin> track_id ` set (options chal) \<Longrightarrow>
      distinct (map track_id (t # take 3 (options chal)))" if "track_id t = k" for k t
    using that by auto
  with assms show ?thesis
    by (auto simp: self_heal_def Let_def distinct_map_shuffle find_None_ids
        simp del: distinct.simps list.map)
qed

lemma self_heal_full_length:
  assumes "remaining \<noteq> []" and "set remaining \<subseteq> set tracks"
    and "length (options chal) = min 4 (length tracks)"
    and "length tracks \<le> 4 \<longrightarrow> set (options chal) = set tracks"
  shows "length (options (self_heal played remaining env chal)) = min 4 (length tracks)"
proof -
  let ?f = "remaining ! random_index (heal_pick env) (length remaining)"
  have fin: "?f \<in> set tracks"
    using heal_pick_in [OF assms(1), of "heal_pick env"] assms(2) by blast
  show ?thesis
  proof (cases "find (\<lambda>opt. track_id opt = track_id ?f) (options chal) = None")
    case False
    then obtain y where "find (\<lambda>opt. track_id opt = track_id ?f) (options chal) = Some y"
      by auto
    then show ?thesis using assms(3) by (simp add: self_heal_def Let_def)
  next
    case True
    then have "?f \<notin> set (options chal)" by (auto simp: find_None_iff)
    with fin assms(4) have "4 < length tracks" by auto
    with assms(3) show ?thesis
      using True by (simp add: self_heal_def Let_def length_shuffle)
  qed
qed

lemma same_id_same_track:
  assumes "distinct (map track_id tracks)" and "a \<in> set tracks" and "b \<in> set tracks"
    and "track_id a = track_id b"
  shows "a = b"
  using assms by (meson distinct_map inj_onD)


subsection \<open>Effects, and what every state of a run satisfies\<close>

lemma run_effects_fields [simp]:
  "gameState (run_effects s) = gameState s"
  "score (run_effects s) = score s"
  "challenge (run_effects s) = challenge s"
  "playedTrackIds (run_effects s) = playedTrackIds s"
  "currentAlbumTracks (run_effects s) = currentAlbumTracks s"
  "completedAlbums (run_effects s) = completedAlbums s"
  "stored_completed (run_effects s) = stored_completed s"
  "selectedSource (run_effects s) = selectedSource s"
  "isVictory (run_effects s) = isVictory s"
  "isFiring (run_effects s) = isFiring s"
  "isLoading (run_effects s) = isLoading s"
  "isQuotaError (run_effects s) = isQuotaError s"
  "hasNoSamplesError (run_effects s) = hasNoSamplesError s"
  "lastCorrectTrack (run_effects s) = lastCorrectTrack s"
  "difficulty (run_effects s) = difficulty s"
  "timers (run_effects s) = timers s"
  "audioRef (run_effects s) = audioRef s"
  "isAudioPlaying (run_effects s) = isAudioPlaying s"
  "albums (run_effects s) = albums s"
  "replaysRemaining (run_effects s) = replaysRemaining s"
  "messageKey (run_effects s) = messageKey s"
  by (simp_all add: run_effects_def victory_ref_effect_def high_score_effect_def)

lemma run_effects_highScore: "highScore (run_effects s) = max (highScore s) (score s)"
  by (simp add: run_effects_def victory_ref_effect_def high_score_effect_def)

lemma run_effects_stored:
  "stored_highscore (run_effects s) =
     (if highScore s < score s then Some (score s) else stored_highscore s)"
  by (simp add: run_effects_def victory_ref_effect_def high_score_effect_def)

lemma round_invariant_run_effects: "round_invariant (run_effects s) = round_invariant s"
  by (simp add: round_invariant_def)

lemma ledger_invariant_run_effects:
  "highScore s = (case stored_highscore s of Some h \<Rightarrow> h | None \<Rightarrow> 0) \<Longrightarrow>
   ledger_invariant (run_effects s)"
  by (simp add: ledger_invariant_def run_effects_highScore run_effects_stored)

lemma startChallenge_round_invariant:
  assumes "round_invariant s" and "isNewAlbum \<longrightarrow> gameState s = ALBUM_SELECTION"
  shows "round_invariant (startChallenge s album isNewAlbum env)"
proof (cases rule: startChallenge_cases [of isNewAlbum s album env])
  case no_samples
  then show ?thesis
    using assms by (simp add: startChallenge_no_samples round_invariant_def)
next
  case survived
  then show ?thesis
    using assms
    by (simp add: startChallenge_survived round_invariant_def loaded_def markAlbumComplete_eq
        round_tracks_def split: option.splits)
next
  case (started chal)
  then show ?thesis
    using assms
    by (simp add: startChallenge_started [OF started refl] round_invariant_def loaded_def
        playSnippet_def round_tracks_def)
next
  case (failed err)
  then show ?thesis
    using assms
    by (simp add: startChallenge_failed round_invariant_def loaded_def round_tracks_def)
qed

lemma enabled_Answer_playing:
  "enabled s (Answer t) \<Longrightarrow> gameState s = PLAYING \<and> \<not> hasNoSamplesError s \<and> \<not> isQuotaError s"
  by (auto simp: panel_shown_def error_panel_def)

lemma enabled_NextRound_playing:
  "enabled s (NextRound env) \<Longrightarrow> gameState s = PLAYING \<and> \<not> hasNoSamplesError s \<and> \<not> isQuotaError s"
  by (auto simp: panel_shown_def error_panel_def)

lemma enabled_Replay_playing:
  "enabled s Replay \<Longrightarrow> gameState s = PLAYING \<and> \<not> hasNoSamplesError s \<and> \<not> isQuotaError s"
  by (auto simp: panel_shown_def error_panel_def)

lemma points_nonneg: "0 \<le> points d"
  by (simp add: points_def)


lemma handleAnswer_open:
  assumes "challenge s = Some c" and "\<not> isFiring s" and "\<not> isVictory s"
  shows "handleAnswer s t =
     (if track_id t = track_id (correctTrack c)
      then s\<lparr> isVictory := True, isVictoryRef := True,
              score := score s + points (difficulty s),
              messageKey := correctAnswer,
              isAudioPlaying := True,
              playedTrackIds := insert (track_id t) (playedTrackIds s),
              audioRef := map_option (\<lambda>a. a\<lparr> paused := False \<rparr>) (audioRef s) \<rparr>
      else s\<lparr> isFiring := True,
              audioRef := map_option (\<lambda>a. a\<lparr> paused := True \<rparr>) (audioRef s),
              isAudioPlaying := False,
              messageKey := wrongAnswer,
              timers := timers s @ [GameOverTimeout 1500] \<rparr>)"
  using assms by (simp add: handleAnswer_def)

lemma enabled_Answer_challenge:
  "enabled s (Answer t) \<Longrightarrow> \<exists>c. challenge s = Some c \<and> t \<in> set (options c)"
  by (cases "challenge s") simp_all

lemma enabled_Answer_flags: "enabled s (Answer t) \<Longrightarrow> \<not> isFiring s \<and> \<not> isVictory s \<and> \<not> isLoading s"
  by simp

lemma c_answer:
  assumes "round_invariant s" and "enabled s (Answer t)"
  shows "round_invariant (handleAnswer s t)"
proof -
  from enabled_Answer_challenge [OF assms(2)] obtain c where c: "challenge s = Some c" by blast
  from enabled_Answer_flags [OF assms(2)] have f: "\<not> isFiring s" "\<not> isVictory s" by simp_all
  from enabled_Answer_playing [OF assms(2)] have g: "gameState s = PLAYING" "\<not> hasNoSamplesError s"
    by simp_all
  have p: "0 \<le> points (difficulty s)" by (rule points_nonneg)
  show ?thesis
    using assms(1) c g p
    by (simp add: handleAnswer_open [OF c f] round_invariant_def)
qed


lemma enabled_Replay_challenge: "enabled s Replay \<Longrightarrow> \<exists>c. challenge s = Some c"
  by (simp add: panel_shown_def)

lemma playSnippet_round_invariant: "round_invariant (playSnippet r s url) = round_invariant s"
  by (simp add: playSnippet_def round_invariant_def)

lemma c_replay:
  assumes "round_invariant s" and "enabled s Replay"
  shows "round_invariant (handleReplay s)"
proof (cases "challenge s")
  case None
  with assms show ?thesis by (simp add: handleReplay_def)
next
  case (Some c)
  from enabled_Replay_playing [OF assms(2)]
  have g: "gameState s = PLAYING" "\<not> hasNoSamplesError s" by simp_all
  have "round_invariant (s\<lparr> replaysRemaining := replaysRemaining s - 1,
                               messageKey := listeningAgain \<rparr>)"
    using assms(1) g by (simp add: round_invariant_def)
  with assms(1) Some show ?thesis
    by (simp add: handleReplay_def playSnippet_round_invariant)
qed

lemma c_timer:
  assumes "round_invariant s"
  shows "round_invariant (fire_timer s i)"
proof (cases "i < length (timers s)")
  case False
  with assms show ?thesis by (simp add: fire_timer_def)
next
  case True
  show ?thesis
  proof (cases "timers s ! i")
    case (GameOverTimeout ms)
    with True assms show ?thesis
      by (simp add: fire_timer_def Let_def round_invariant_def)
  next
    case (SnippetTimeout ms a)
    with True assms show ?thesis
      by (simp add: fire_timer_def Let_def round_invariant_def)
  qed
qed

lemma c_search:
  assumes "round_invariant s" and "gameState s = SEARCHING"
  shows "round_invariant (handleSearch s q resp)"
  using assms by (simp add: handleSearch_def Let_def round_invariant_def)

lemma c_next:
  assumes "round_invariant s" and "enabled s (NextRound env)"
  shows "round_invariant (nextRound s env)"
proof -
  from enabled_NextRound_playing [OF assms(2)]
  have g: "gameState s = PLAYING" "\<not> hasNoSamplesError s" by simp_all
  with assms(1)
  have r: "round_invariant (s\<lparr> isVictory := False, isVictoryRef := False, isFiring := False,
                  isAudioPlaying := False \<rparr>)"
    by (simp add: round_invariant_def)
  show ?thesis
  proof (cases "selectedSource s")
    case None
    with r show ?thesis by (simp add: nextRound_eq)
  next
    case (Some source)
    with r show ?thesis
      by (simp add: nextRound_eq startChallenge_round_invariant)
  qed
qed

lemma handle_round_invariant:
  assumes "round_invariant s" and "enabled s e"
  shows "round_invariant (handle s e)"
proof (cases e)
  case (Search q resp)
  with assms show ?thesis by (simp add: c_search)
next
  case (SetDifficulty d)
  with assms show ?thesis by (simp add: round_invariant_def)
next
  case (PickAlbum album env)
  with assms show ?thesis by (simp add: startChallenge_round_invariant)
next
  case (Answer t)
  with assms show ?thesis by (simp only: handle.simps c_answer)
next
  case (NextRound env)
  with assms show ?thesis by (simp only: handle.simps c_next)
next
  case Replay
  with assms(2) have "enabled s Replay" by simp
  with assms(1) show ?thesis
    unfolding Replay by (simp only: handle.simps c_replay)
next
  case Reset
  with assms show ?thesis by (simp add: resetGame_def round_invariant_def)
next
  case BackToSelection
  with assms show ?thesis by (simp add: backToSelection_def round_invariant_def)
next
  case BackToSearchArtist
  with assms show ?thesis by (simp add: backToSearchArtist_def round_invariant_def)
next
  case (OpenKeyDialog b)
  with assms show ?thesis by (simp add: handleOpenKeyDialog_def round_invariant_def)
next
  case (TimerFires i)
  with assms show ?thesis by (simp only: handle.simps c_timer)
qed


lemma handle_ledger:
  "highScore (handle s e) = highScore s \<and> stored_highscore (handle s e) = stored_highscore s"
proof (cases e)
  case (Search q resp)
  then show ?thesis by (simp add: handleSearch_def Let_def)
next
  case (SetDifficulty d)
  then show ?thesis by simp
next
  case (PickAlbum album env)
  then show ?thesis by simp
next
  case (Answer t)
  then show ?thesis by (simp add: handleAnswer_def split: option.splits)
next
  case (NextRound env)
  then show ?thesis by (simp add: nextRound_eq Let_def split: option.splits)
next
  case Replay
  then show ?thesis by (simp add: handleReplay_def playSnippet_def split: option.splits)
next
  case Reset
  then show ?thesis by (simp add: resetGame_def)
next
  case BackToSelection
  then show ?thesis by (simp add: backToSelection_def)
next
  case BackToSearchArtist
  then show ?thesis by (simp add: backToSearchArtist_def)
next
  case (OpenKeyDialog b)
  then show ?thesis by (simp add: handleOpenKeyDialog_def)
next
  case (TimerFires i)
  then show ?thesis by (simp add: fire_timer_def Let_def split: timer.splits)
qed

lemma step_invariant:
  assumes "invariant s"
  shows "invariant (step s e)"
proof (cases "enabled s e")
  case False
  with assms show ?thesis by (simp add: step_def)
next
  case True
  from assms have r: "round_invariant s"
    and l: "highScore s = (case stored_highscore s of Some h \<Rightarrow> h | None \<Rightarrow> 0)"
    by (simp_all add: invariant_def ledger_invariant_def)
  have "round_invariant (run_effects (handle s e))"
    using handle_round_invariant [OF r True] by (simp add: round_invariant_run_effects)
  moreover have "ledger_invariant (run_effects (handle s e))"
    using l by (intro ledger_invariant_run_effects) (simp add: handle_ledger)
  ultimately show ?thesis
    using True by (simp add: step_def invariant_def)
qed

lemma initial_round_invariant:
  "round_invariant (initial_state \<lparr> highScore := a, completedAlbums := b,
      stored_highscore := x, stored_completed := y \<rparr>)"
  by (simp add: round_invariant_def initial_state_def)

lemma mount_invariant: "invariant (mount h c)"
  unfolding mount_def invariant_def
proof
  show "round_invariant (run_effects (initial_state
          \<lparr> highScore := (case h of Some h \<Rightarrow> h | None \<Rightarrow> 0),
            completedAlbums := (case c of Some c \<Rightarrow> c | None \<Rightarrow> []),
            stored_highscore := h,
            stored_completed := c \<rparr>))"
    by (simp only: round_invariant_run_effects initial_round_invariant)
  show "ledger_invariant (run_effects (initial_state
          \<lparr> highScore := (case h of Some h \<Rightarrow> h | None \<Rightarrow> 0),
            completedAlbums := (case c of Some c \<Rightarrow> c | None \<Rightarrow> []),
            stored_highscore := h,
            stored_completed := c \<rparr>))"
    by (rule ledger_invariant_run_effects) simp
qed

lemma run_Nil: "run s [] = s"
  by (simp add: run_def)

lemma run_snoc: "run s (es @ [e]) = step (run s es) e"
  by (simp add: run_def)

lemma run_Cons: "run s (e # es) = run (step s e) es"
  by (simp add: run_def)

lemma run_invariant: "invariant s \<Longrightarrow> invariant (run s es)"
  by (induction es rule: rev_induct) (simp_all add: run_snoc run_Nil step_invariant)

lemma reachable_invariant: "invariant (run (mount h c) es)"
  by (simp add: run_invariant mount_invariant)

subsection \<open>The two intents that start a round\<close>

lemma flags_cleared_fields [simp]:
  "round_tracks (flags_cleared s) album isNewAlbum env = round_tracks s album isNewAlbum env"
  "round_played (flags_cleared s) isNewAlbum = round_played s isNewAlbum"
  "remaining_tracks (flags_cleared s) album isNewAlbum env = remaining_tracks s album isNewAlbum env"
  "difficulty (flags_cleared s) = difficulty s"
  "score (flags_cleared s) = score s"
  "highScore (flags_cleared s) = highScore s"
  "playedTrackIds (flags_cleared s) = playedTrackIds s"
  "gameState (flags_cleared s) = gameState s"
  "challenge (flags_cleared s) = challenge s"
  "replaysRemaining (flags_cleared s) = replaysRemaining s"
  "currentAlbumTracks (flags_cleared s) = currentAlbumTracks s"
  "selectedSource (flags_cleared s) = selectedSource s"
  "completedAlbums (flags_cleared s) = completedAlbums s"
  "isVictory (flags_cleared s) = False"
  "isFiring (flags_cleared s) = False"
  by (simp_all add: flags_cleared_def round_tracks_def round_played_def remaining_tracks_def)

lemma nextRound_startChallenge:
  "selectedSource s = Some album \<Longrightarrow>
   nextRound s env = startChallenge (flags_cleared s) album False env"
  by (simp add: nextRound_eq flags_cleared_def)

text \<open>
  The state round-start works on: the state itself when an album tile is picked, the
  state with the round flags cleared when the next-round button is pressed.
\<close>

lemma round_event_handle:
  assumes "e = PickAlbum album env \<and> isNewAlbum
         \<or> e = NextRound env \<and> \<not> isNewAlbum \<and> selectedSource s = Some album"
  shows "handle s e = startChallenge (if isNewAlbum then s else flags_cleared s) album isNewAlbum env"
  using assms by (auto simp: nextRound_startChallenge)



lemma step_round_event:
  assumes "e = PickAlbum album env \<and> isNewAlbum
         \<or> e = NextRound env \<and> \<not> isNewAlbum \<and> selectedSource s = Some album"
    and "enabled s e"
  shows "step s e = run_effects (startChallenge (if isNewAlbum then s else flags_cleared s) album isNewAlbum env)"
  using assms(2) round_event_handle [OF assms(1)] by (simp add: step_def)

lemma round_state_same [simp]:
  "round_tracks (if isNewAlbum then s else flags_cleared s) album isNewAlbum env = round_tracks s album isNewAlbum env"
  "round_played (if isNewAlbum then s else flags_cleared s) isNewAlbum = round_played s isNewAlbum"
  "remaining_tracks (if isNewAlbum then s else flags_cleared s) album isNewAlbum env = remaining_tracks s album isNewAlbum env"
  "difficulty (if isNewAlbum then s else flags_cleared s) = difficulty s"
  "score (if isNewAlbum then s else flags_cleared s) = score s"
  "highScore (if isNewAlbum then s else flags_cleared s) = highScore s"
  "playedTrackIds (if isNewAlbum then s else flags_cleared s) = playedTrackIds s"
  "gameState (if isNewAlbum then s else flags_cleared s) = gameState s"
  "challenge (if isNewAlbum then s else flags_cleared s) = challenge s"
  "replaysRemaining (if isNewAlbum then s else flags_cleared s) = replaysRemaining s"
  "currentAlbumTracks (if isNewAlbum then s else flags_cleared s) = currentAlbumTracks s"
  by simp_all



lemma startChallenge_round:
  assumes "remaining_tracks s album isNewAlbum env \<noteq> []"
    and "getAlbumChallenge album (round_tracks s album isNewAlbum env) (difficulty s) (gen_of env) = Inr chal"
  shows "challenge (startChallenge s album isNewAlbum env)
           = Some (self_heal (round_played s isNewAlbum) (remaining_tracks s album isNewAlbum env) env chal)"
    and "gameState (startChallenge s album isNewAlbum env) = PLAYING"
    and "playedTrackIds (startChallenge s album isNewAlbum env) = round_played s isNewAlbum"
    and "currentAlbumTracks (startChallenge s album isNewAlbum env) = round_tracks s album isNewAlbum env"
    and "lastCorrectTrack (startChallenge s album isNewAlbum env)
           = Some (track_name (correctTrack (self_heal (round_played s isNewAlbum)
                (remaining_tracks s album isNewAlbum env) env chal)))"
    and "isQuotaError (startChallenge s album isNewAlbum env) = False"
    and "hasNoSamplesError (startChallenge s album isNewAlbum env) = False"
    and "selectedSource (startChallenge s album isNewAlbum env)
           = (if isNewAlbum then Some album else selectedSource s)"
    and "completedAlbums (startChallenge s album isNewAlbum env) = completedAlbums s"
  by (simp_all add: startChallenge_started [OF assms refl] playSnippet_def loaded_def
      round_played_def round_tracks_def)

lemma remaining_playable:
  assumes "\<forall>t \<in> set (currentAlbumTracks s). has_preview t"
  shows "\<forall>t \<in> set (remaining_tracks s album isNewAlbum env).
           track_id t \<notin> round_played s isNewAlbum \<and> has_preview t"
  using round_tracks_previews [OF assms, of album isNewAlbum env]
  by (simp add: remaining_tracks_set)


section \<open>The claims about the round controller\<close>

subsection \<open>Answers after the round is resolved\<close>
















subsection \<open>A wrong answer\<close>














subsection \<open>A quota error at round-start\<close>






subsection \<open>The correct track of a round\<close>


lemma playable_fields:
  assumes "currentAlbumTracks s' = currentAlbumTracks s" and "audioRef s' = audioRef s"
  shows "playable s' = playable s"
  using assms by (simp add: playable_def)



lemma playable_markAlbumComplete_of: "playable (markAlbumComplete_of r s i) = playable s"
  by (rule playable_fields) (simp_all add: markAlbumComplete_of_def)


lemma playable_paused:
  "playable (s\<lparr> audioRef := map_option (\<lambda>a. a\<lparr> paused := b \<rparr>) (audioRef s) \<rparr>) = playable s"
  by (cases "audioRef s") (simp_all add: playable_def)






























lemma second_round_facts:
  "enabled after_win (NextRound offline_round)
   \<and> selectedSource after_win = Some sample_album
   \<and> remaining_tracks after_win sample_album False offline_round = [track_b]
   \<and> getAlbumChallenge sample_album (round_tracks after_win sample_album False offline_round)
         (difficulty after_win) (gen_of offline_round)
       = Inr \<lparr> correctTrack = track_a, options = [track_a, track_b],
               snippetDescription = survival_text @ ''Letters'' \<rparr>
   \<and> playedTrackIds after_win = {''1''}"
  by code_simp


subsection \<open>The options of a round\<close>

lemma remaining_subset:
  "set (remaining_tracks s album isNewAlbum env) \<subseteq> set (round_tracks s album isNewAlbum env)"
  by (auto simp: remaining_tracks_set)

text \<open>
  Claim C1, as the code has it. In any state a run reaches, when round-start installs a
  challenge (from the AI path or from the local fallback, after the self-healing check),
  its options are at least one and at most four, all of them tracks of the album with a
  preview address that is not empty, and one of them has the id of the correct track (it
  is the correct track itself when the album's track ids are pairwise distinct). On the
  local fallback path, with pairwise distinct track ids, the options have pairwise
  distinct ids and there are as many as the smaller of four and the number of tracks.
  Nothing makes the options of the AI path distinct, and nothing fills the list up to
  four.
\<close>

theorem round_options_shape:
  assumes "s = run (mount h c) evs"
    and "enabled s e"
    and "e = PickAlbum album env \<and> isNewAlbum
       \<or> e = NextRound env \<and> \<not> isNewAlbum \<and> selectedSource s = Some album"
    and "remaining_tracks s album isNewAlbum env \<noteq> []"
    and "getAlbumChallenge album (round_tracks s album isNewAlbum env) (difficulty s) (gen_of env) = Inr chal"
  shows "\<exists>installed. challenge (step s e) = Some installed
       \<and> 1 \<le> length (options installed) \<and> length (options installed) \<le> 4
       \<and> track_id (correctTrack installed) \<in> track_id ` set (options installed)
       \<and> (\<forall>opt \<in> set (options installed). has_preview opt)
       \<and> set (options installed) \<subseteq> set (round_tracks s album isNewAlbum env)
       \<and> (distinct (map track_id (round_tracks s album isNewAlbum env)) \<longrightarrow>
             correctTrack installed \<in> set (options installed))
       \<and> (distinct (map track_id (round_tracks s album isNewAlbum env))
            \<and> (\<exists>err. ai_challenge (round_tracks s album isNewAlbum env) (gen_of env) = Inl err) \<longrightarrow>
             distinct (map track_id (options installed))
           \<and> length (options installed) = min 4 (length (round_tracks s album isNewAlbum env)))"
proof -
  let ?s0 = "if isNewAlbum then s else flags_cleared s"
  let ?tracks = "round_tracks s album isNewAlbum env"
  let ?rem = "remaining_tracks s album isNewAlbum env"
  let ?healed = "self_heal (round_played s isNewAlbum) ?rem env chal"
  have inv: "invariant s"
    unfolding assms(1) by (rule reachable_invariant)
  then have pv: "\<forall>t \<in> set (currentAlbumTracks s). has_preview t"
    by (simp add: invariant_def round_invariant_def)
  have tp: "\<forall>t \<in> set ?tracks. has_preview t"
    using pv by (rule round_tracks_previews)
  have st: "step s e = run_effects (startChallenge ?s0 album isNewAlbum env)"
    using assms(3,2) by (rule step_round_event)
  have r: "remaining_tracks ?s0 album isNewAlbum env \<noteq> []"
    using assms(4) by simp
  have g: "getAlbumChallenge album (round_tracks ?s0 album isNewAlbum env) (difficulty ?s0) (gen_of env) = Inr chal"
    using assms(5) by simp
  have c: "challenge (step s e) = Some ?healed"
    using startChallenge_round(1) [OF r g] by (simp add: st)
  note rs = remaining_subset [of s album isNewAlbum env]
  from getAlbumChallenge_Inr [OF assms(5)]
  have gc: "correctTrack chal \<in> set ?tracks" and go: "set (options chal) \<subseteq> set ?tracks"
    and gi: "correctTrack chal \<in> set (options chal)"
    and gl: "1 \<le> length (options chal)" "length (options chal) \<le> 4"
    by simp_all
  have len: "1 \<le> length (options ?healed) \<and> length (options ?healed) \<le> 4"
    using gl by (rule self_heal_length)
  have con: "track_id (correctTrack ?healed) \<in> track_id ` set (options ?healed)"
    using gi by (rule self_heal_contains)
  have sub: "set (options ?healed) \<subseteq> set ?tracks"
    using assms(4) rs go by (rule self_heal_options_subset)
  have cin: "correctTrack ?healed \<in> set ?tracks"
    using assms(4) rs gc by (rule self_heal_correct_in)
  have prev: "\<forall>opt \<in> set (options ?healed). has_preview opt"
    using sub tp by blast
  have mem: "distinct (map track_id ?tracks) \<longrightarrow> correctTrack ?healed \<in> set (options ?healed)"
  proof
    assume d: "distinct (map track_id ?tracks)"
    from con obtain opt where o: "opt \<in> set (options ?healed)"
      and i: "track_id (correctTrack ?healed) = track_id opt"
      by blast
    from o sub have ot: "opt \<in> set ?tracks" by blast
    from d cin ot i have "correctTrack ?healed = opt"
      by (rule same_id_same_track)
    with o show "correctTrack ?healed \<in> set (options ?healed)" by simp
  qed
  have fb: "distinct (map track_id ?tracks) \<and> (\<exists>err. ai_challenge ?tracks (gen_of env) = Inl err) \<longrightarrow>
             distinct (map track_id (options ?healed))
           \<and> length (options ?healed) = min 4 (length ?tracks)"
  proof
    assume a: "distinct (map track_id ?tracks) \<and> (\<exists>err. ai_challenge ?tracks (gen_of env) = Inl err)"
    then obtain err where ae: "ai_challenge ?tracks (gen_of env) = Inl err" by blast
    with assms(5) have lf: "local_fallback album ?tracks (gen_of env) = Inr chal"
      by (simp add: getAlbumChallenge_def split: if_splits)
    from local_fallback_Inr [OF lf] a
    have l4: "length (options chal) = min 4 (length ?tracks)"
      and full: "length ?tracks \<le> 4 \<longrightarrow> set (options chal) = set ?tracks"
      and d: "distinct (map track_id (options chal))"
      by simp_all
    have "distinct (map track_id (options ?healed))"
      using d by (rule self_heal_distinct)
    moreover have "length (options ?healed) = min 4 (length ?tracks)"
      using assms(4) rs l4 full by (rule self_heal_full_length)
    ultimately show "distinct (map track_id (options ?healed))
           \<and> length (options ?healed) = min 4 (length ?tracks)" ..
  qed
  from c len con prev sub mem fb show ?thesis by blast
qed

lemma short_and_repeated:
  "gameState first_round = PLAYING
   \<and> length (shown_options first_round) = 2
   \<and> gameState repeated_round = PLAYING
   \<and> map track_id (shown_options repeated_round) = [''1'', ''2'', ''2'', ''2'']"
  by code_simp


lemma second_round_fallback:
  "distinct (map track_id (round_tracks after_win sample_album False offline_round))
   \<and> ai_challenge (round_tracks after_win sample_album False offline_round) (gen_of offline_round)
       = Inl network_down
   \<and> length (round_tracks after_win sample_album False offline_round) = 2"
  by code_simp

lemma second_round_options:
  "shown_options (step after_win (NextRound offline_round)) = [track_a, track_b]"
  by code_simp

theorem round_options_shape_witness:
  "enabled after_win (NextRound offline_round)
   \<and> selectedSource after_win = Some sample_album
   \<and> remaining_tracks after_win sample_album False offline_round = [track_b]
   \<and> getAlbumChallenge sample_album (round_tracks after_win sample_album False offline_round)
         (difficulty after_win) (gen_of offline_round)
       = Inr \<lparr> correctTrack = track_a, options = [track_a, track_b],
               snippetDescription = survival_text @ ''Letters'' \<rparr>
   \<and> distinct (map track_id (round_tracks after_win sample_album False offline_round))
   \<and> ai_challenge (round_tracks after_win sample_album False offline_round) (gen_of offline_round)
       = Inl network_down
   \<and> shown_options (step after_win (NextRound offline_round)) = [track_a, track_b]
   \<and> distinct (map track_id (shown_options (step after_win (NextRound offline_round))))
   \<and> length (shown_options (step after_win (NextRound offline_round)))
       = min 4 (length (round_tracks after_win sample_album False offline_round))"
proof -
  let ?X = "step after_win (NextRound offline_round)"
  let ?T = "round_tracks after_win sample_album False offline_round"
  note v = second_round_facts
  from v have f1: "enabled after_win (NextRound offline_round)" by (elim conjE)
  from v have f2: "selectedSource after_win = Some sample_album" by (elim conjE)
  from v have f3: "remaining_tracks after_win sample_album False offline_round = [track_b]"
    by (elim conjE)
  from v have f4: "getAlbumChallenge sample_album ?T (difficulty after_win) (gen_of offline_round)
       = Inr \<lparr> correctTrack = track_a, options = [track_a, track_b],
               snippetDescription = survival_text @ ''Letters'' \<rparr>" by (elim conjE)
  note w = second_round_fallback
  from w have f5: "distinct (map track_id ?T)" by (elim conjE)
  from w have f6: "ai_challenge ?T (gen_of offline_round) = Inl network_down" by (elim conjE)
  note f7 = second_round_options
  have r: "after_win = run (mount None None)
     [Search ''letters'' letters_search, PickAlbum sample_album offline_round, Answer track_a]"
    by (rule after_win_def)
  have e: "NextRound offline_round = PickAlbum sample_album offline_round \<and> False
       \<or> NextRound offline_round = NextRound offline_round \<and> \<not> False
           \<and> selectedSource after_win = Some sample_album"
    using f2 by (intro disjI2 conjI refl notI)
  have n: "remaining_tracks after_win sample_album False offline_round \<noteq> []"
    unfolding f3 by (rule list.distinct(2))
  have fbp: "distinct (map track_id ?T) \<and> (\<exists>err. ai_challenge ?T (gen_of offline_round) = Inl err)"
    using f5 f6 by (intro conjI exI)
  from round_options_shape [OF r f1 e n f4]
  obtain installed where i: "challenge ?X = Some installed"
    and fb: "distinct (map track_id ?T) \<and> (\<exists>err. ai_challenge ?T (gen_of offline_round) = Inl err) \<longrightarrow>
             distinct (map track_id (options installed))
           \<and> length (options installed) = min 4 (length ?T)"
    by (elim exE conjE)
  from fb fbp have dl: "distinct (map track_id (options installed))
           \<and> length (options installed) = min 4 (length ?T)"
    by (rule mp)
  from dl have d: "distinct (map track_id (options installed))" by (rule conjunct1)
  from dl have l: "length (options installed) = min 4 (length ?T)" by (rule conjunct2)
  have so: "shown_options ?X = options installed"
    unfolding shown_options_def i by (rule option.case(2))
  from d have f8: "distinct (map track_id (shown_options ?X))" unfolding so .
  from l have f9: "length (shown_options ?X) = min 4 (length ?T)" unfolding so .
  from f1 f2 f3 f4 f5 f6 f7 f8 f9 show ?thesis by (intro conjI)
qed

text \<open>
  The claim as the specification words it fails twice: an album of two tracks gives a
  round with two options, and an AI reply that names one wrong track three times gives a
  round of four options with one id three times.
\<close>

theorem round_options_short_or_repeated:
  "gameState first_round = PLAYING
   \<and> length (shown_options first_round) = 2
   \<and> gameState repeated_round = PLAYING
   \<and> map track_id (shown_options repeated_round) = [''1'', ''2'', ''2'', ''2'']
   \<and> \<not> distinct (map track_id (shown_options repeated_round))"
proof -
  note v = short_and_repeated
  from v have m: "map track_id (shown_options repeated_round) = [''1'', ''2'', ''2'', ''2'']"
    by (elim conjE)
  have "\<not> distinct (map track_id (shown_options repeated_round))"
    unfolding m by simp
  with v show ?thesis by (elim conjE) (intro conjI)
qed


subsection \<open>Score and high score\<close>

lemma handle_score_mono:
  assumes "e \<noteq> Reset"
  shows "score s \<le> score (handle s e)"
proof (cases e)
  case (Search q resp)
  then show ?thesis by (simp add: handleSearch_def Let_def)
next
  case (SetDifficulty d)
  then show ?thesis by simp
next
  case (PickAlbum album env)
  then show ?thesis by simp
next
  case (Answer t)
  then show ?thesis
    using points_nonneg [of "difficulty s"] by (simp add: handleAnswer_def split: option.splits)
next
  case (NextRound env)
  then show ?thesis by (simp add: nextRound_eq Let_def split: option.splits)
next
  case Replay
  then show ?thesis by (simp add: handleReplay_def playSnippet_def split: option.splits)
next
  case Reset
  with assms show ?thesis by simp
next
  case BackToSelection
  then show ?thesis by (simp add: backToSelection_def)
next
  case BackToSearchArtist
  then show ?thesis by (simp add: backToSearchArtist_def)
next
  case (OpenKeyDialog b)
  then show ?thesis by (simp add: handleOpenKeyDialog_def)
next
  case (TimerFires i)
  then show ?thesis by (simp add: fire_timer_def Let_def split: timer.splits)
qed

lemma step_score_mono: "e \<noteq> Reset \<Longrightarrow> score s \<le> score (step s e)"
  by (simp add: step_def handle_score_mono)

lemma step_highScore:
  assumes "score s \<le> highScore s"
  shows "highScore (step s e) = max (highScore s) (score (step s e))"
  using assms by (simp add: step_def run_effects_highScore handle_ledger)

lemma step_stored:
  assumes "highScore s < highScore (step s e)"
  shows "stored_highscore (step s e) = Some (highScore (step s e))"
proof (cases "enabled s e")
  case False
  with assms show ?thesis by (simp add: step_def)
next
  case True
  with assms have "highScore s < max (highScore s) (score (handle s e))"
    by (simp add: step_def run_effects_highScore handle_ledger)
  then have "highScore (handle s e) < score (handle s e)"
    by (simp add: handle_ledger)
  then show ?thesis
    using True by (simp add: step_def run_effects_highScore run_effects_stored)
qed

lemma trace_snoc: "trace s (es @ [e]) = trace s es @ [step (run s es) e]"
  by (induction es arbitrary: s) (simp_all add: run_Nil run_Cons)

lemma trace_nonempty: "trace s es \<noteq> []"
  by (cases es) simp_all

lemma mount_highScore:
  "highScore (mount h c) = max (case h of Some x \<Rightarrow> x | None \<Rightarrow> 0) 0"
  by (simp add: mount_def run_effects_highScore initial_state_def)

lemma mount_score: "score (mount h c) = 0"
  by (simp add: mount_def initial_state_def)

lemma highScore_is_max:
  "highScore (run (mount h c) es)
     = Max (set ((case h of Some x \<Rightarrow> x | None \<Rightarrow> 0) # map score (trace (mount h c) es)))"
proof (induction es rule: rev_induct)
  case Nil
  show ?case by (simp add: run_Nil mount_highScore mount_score)
next
  case (snoc e es)
  let ?h0 = "case h of Some x \<Rightarrow> x | None \<Rightarrow> 0"
  let ?s = "run (mount h c) es"
  let ?A = "set (?h0 # map score (trace (mount h c) es))"
  have inv: "score ?s \<le> highScore ?s"
    using reachable_invariant [of h c es] by (simp add: invariant_def ledger_invariant_def)
  have "set (?h0 # map score (trace (mount h c) (es @ [e]))) = insert (score (step ?s e)) ?A"
    by (auto simp: trace_snoc)
  then have "Max (set (?h0 # map score (trace (mount h c) (es @ [e]))))
      = max (score (step ?s e)) (Max ?A)"
    by (simp only: Max_insert [of ?A] List.finite_set) simp
  also have "\<dots> = max (highScore ?s) (score (step ?s e))"
    by (simp only: snoc.IH [symmetric] max.commute)
  also have "\<dots> = highScore (step ?s e)"
    using inv by (simp only: step_highScore)
  finally show ?case by (simp only: run_snoc)
qed

text \<open>
  Claim C4. A session is the play between two resets: reset is the one intent that sets
  the score back, to zero, and it leaves the high score alone. In any state a run
  reaches, every other intent leaves the score at least as large as it was. After every
  step the high score is the larger of the old high score and the new score, so it never
  decreases, and it is the largest of the saved high score and all the scores the run has
  gone through. Whenever a step raises it, the new value is in storage after that step;
  the stored value is always the high score, so mounting the component again from what
  is stored starts with the same high score.
\<close>

theorem score_and_high_score_ledger:
  assumes "s = run (mount h c) evs"
  shows "(\<forall>e. e \<noteq> Reset \<longrightarrow> score s \<le> score (step s e))
       \<and> (\<forall>e. highScore (step s e) = max (highScore s) (score (step s e)))
       \<and> (\<forall>e. highScore s \<le> highScore (step s e))
       \<and> (\<forall>e. highScore s < highScore (step s e) \<longrightarrow>
             stored_highscore (step s e) = Some (highScore (step s e)))
       \<and> highScore s
           = Max (set ((case h of Some x \<Rightarrow> x | None \<Rightarrow> 0) # map score (trace (mount h c) evs)))
       \<and> highScore s = (case stored_highscore s of Some x \<Rightarrow> x | None \<Rightarrow> 0)
       \<and> highScore (mount (stored_highscore s) c') = highScore s"
proof -
  have inv: "invariant s"
    unfolding assms by (rule reachable_invariant)
  then have l: "score s \<le> highScore s"
    and st: "highScore s = (case stored_highscore s of Some x \<Rightarrow> x | None \<Rightarrow> 0)"
    and nn: "0 \<le> score s"
    by (simp_all add: invariant_def ledger_invariant_def round_invariant_def)
  have a: "\<forall>e. e \<noteq> Reset \<longrightarrow> score s \<le> score (step s e)"
    by (simp add: step_score_mono)
  have b: "\<forall>e. highScore (step s e) = max (highScore s) (score (step s e))"
    using l by (simp add: step_highScore)
  have c: "\<forall>e. highScore s \<le> highScore (step s e)"
    using b by simp
  have d: "\<forall>e. highScore s < highScore (step s e) \<longrightarrow>
             stored_highscore (step s e) = Some (highScore (step s e))"
    by (simp add: step_stored)
  have e: "highScore s
           = Max (set ((case h of Some x \<Rightarrow> x | None \<Rightarrow> 0) # map score (trace (mount h c) evs)))"
    unfolding assms by (rule highScore_is_max)
  have "highScore (mount (stored_highscore s) c') = max (highScore s) 0"
    by (simp only: mount_highScore st [symmetric])
  with l nn have f: "highScore (mount (stored_highscore s) c') = highScore s"
    by simp
  from a b c d e st f show ?thesis by blast
qed


lemma after_win_ledger:
  "highScore after_win = 100 \<and> stored_highscore after_win = Some 100 \<and> score after_win = 100
   \<and> score (step after_win (NextRound offline_round)) = 100"
  by code_simp

theorem score_and_high_score_ledger_witness:
  "highScore after_win = 100
   \<and> stored_highscore after_win = Some 100
   \<and> score after_win \<le> score (step after_win (NextRound offline_round))
   \<and> highScore (step after_win (NextRound offline_round))
       = max (highScore after_win) (score (step after_win (NextRound offline_round)))
   \<and> highScore (mount (stored_highscore after_win) None) = highScore after_win"
proof -
  note v = after_win_ledger
  from v have f1: "highScore after_win = 100" by (elim conjE)
  from v have f2: "stored_highscore after_win = Some 100" by (elim conjE)
  have r: "after_win = run (mount None None)
     [Search ''letters'' letters_search, PickAlbum sample_album offline_round, Answer track_a]"
    by (rule after_win_def)
  note t = score_and_high_score_ledger [OF r, of None]
  from t have a: "\<forall>e. e \<noteq> Reset \<longrightarrow> score after_win \<le> score (step after_win e)"
    by (elim conjE)
  from t have b: "\<forall>e. highScore (step after_win e) = max (highScore after_win) (score (step after_win e))"
    by (elim conjE)
  from t have f5: "highScore (mount (stored_highscore after_win) None) = highScore after_win"
    by (elim conjE)
  have "NextRound offline_round \<noteq> Reset" by (rule event.distinct)
  with a have f3: "score after_win \<le> score (step after_win (NextRound offline_round))"
    by (elim allE impE)
  from b have f4: "highScore (step after_win (NextRound offline_round))
       = max (highScore after_win) (score (step after_win (NextRound offline_round)))"
    by (rule spec)
  from f1 f2 f3 f4 f5 show ?thesis by (intro conjI)
qed


subsection \<open>Playing an album to its end\<close>

lemma getAlbumChallenge_answers:
  assumes "tracks \<noteq> []" and "generator_answers env"
  shows "\<exists>chal. getAlbumChallenge album tracks d (gen_of env) = Inr chal"
proof (cases "getAlbumChallenge album tracks d (gen_of env)")
  case (Inr chal)
  then show ?thesis by blast
next
  case (Inl e)
  from local_fallback_nonempty [OF assms(1), of album "gen_of env"]
  have nf: "local_fallback album tracks (gen_of env) \<noteq> Inl e" by auto
  from Inl nf have a: "ai_challenge tracks (gen_of env) = Inl e" and t: "rethrown e"
    by (auto simp: getAlbumChallenge_def split: sum.splits if_splits)
  from ai_challenge_Inl [OF assms(1) a] t rethrown_undefined_access
  have "ai (gen_of env) = AiFailed e" by auto
  with t assms(2) show ?thesis by (simp add: generator_answers_def)
qed

lemma distinct_count_one: "distinct xs \<Longrightarrow> x \<in> set xs \<Longrightarrow> count_list xs x = 1"
  by (induction xs) auto

lemma markAlbumComplete_completed:
  assumes "distinct (completedAlbums s)"
  shows "distinct (completedAlbums (markAlbumComplete s i))
       \<and> i \<in> set (completedAlbums (markAlbumComplete s i))"
  using assms by (simp add: markAlbumComplete_eq)

lemma markAlbumComplete_fields [simp]:
  "gameState (markAlbumComplete s i) = gameState s"
  "playedTrackIds (markAlbumComplete s i) = playedTrackIds s"
  "score (markAlbumComplete s i) = score s"
  by (simp_all add: markAlbumComplete_eq)

lemma correct_option_Some:
  assumes "challenge s = Some ch"
    and "track_id (correctTrack ch) \<in> track_id ` set (options ch)"
  shows "\<exists>t. correct_option s = Some t \<and> t \<in> set (options ch)
           \<and> track_id t = track_id (correctTrack ch)"
proof (cases "find (\<lambda>opt. track_id opt = track_id (correctTrack ch)) (options ch)")
  case None
  with assms(2) show ?thesis by (auto simp: find_None_iff)
next
  case (Some t)
  then have "t \<in> set (options ch) \<and> track_id t = track_id (correctTrack ch)"
    by (auto simp: find_Some_iff)
  with Some assms(1) show ?thesis by (simp add: correct_option_def)
qed


lemma mid_album_challenge:
  assumes "mid_album album tracks d k s"
  obtains ch where "challenge s = Some ch" and "correctTrack ch \<in> set tracks"
    and "track_id (correctTrack ch) \<notin> playedTrackIds s"
    and "track_id (correctTrack ch) \<in> track_id ` set (options ch)"
  using assms by (cases "challenge s") (simp_all add: mid_album_def)

lemma answer_correctly_step:
  assumes "mid_album album tracks d k s"
  obtains ch where "challenge s = Some ch" and "correctTrack ch \<in> set tracks"
    and "track_id (correctTrack ch) \<notin> playedTrackIds s"
    and "answer_correctly s =
          run_effects (s\<lparr> isVictory := True, isVictoryRef := True,
              score := score s + points (difficulty s),
              messageKey := correctAnswer,
              isAudioPlaying := True,
              playedTrackIds := insert (track_id (correctTrack ch)) (playedTrackIds s),
              audioRef := map_option (\<lambda>a. a\<lparr> paused := False \<rparr>) (audioRef s) \<rparr>)"
proof -
  from assms obtain ch where c: "challenge s = Some ch" and ct: "correctTrack ch \<in> set tracks"
    and np: "track_id (correctTrack ch) \<notin> playedTrackIds s"
    and io: "track_id (correctTrack ch) \<in> track_id ` set (options ch)"
    by (rule mid_album_challenge)
  from correct_option_Some [OF c io] obtain t where co: "correct_option s = Some t"
    and tin: "t \<in> set (options ch)" and tid: "track_id t = track_id (correctTrack ch)"
    by blast
  from assms have fl: "\<not> isFiring s" "\<not> isVictory s"
    and rest: "gameState s = PLAYING" "\<not> isQuotaError s" "\<not> hasNoSamplesError s" "\<not> isLoading s"
    by (simp_all add: mid_album_def)
  have en: "enabled s (Answer t)"
    using c tin fl rest by (simp add: panel_shown_def error_panel_def)
  have "answer_correctly s = run_effects (handleAnswer s t)"
    using co en by (simp add: answer_correctly_def step_def)
  then have "answer_correctly s =
          run_effects (s\<lparr> isVictory := True, isVictoryRef := True,
              score := score s + points (difficulty s),
              messageKey := correctAnswer,
              isAudioPlaying := True,
              playedTrackIds := insert (track_id (correctTrack ch)) (playedTrackIds s),
              audioRef := map_option (\<lambda>a. a\<lparr> paused := False \<rparr>) (audioRef s) \<rparr>)"
    using tid by (simp add: handleAnswer_open [OF c fl])
  with c ct np show ?thesis by (rule that)
qed

lemma answer_correctly_facts:
  assumes "mid_album album tracks d k s"
  shows "isVictory (answer_correctly s)"
    and "gameState (answer_correctly s) = PLAYING"
    and "\<not> isQuotaError (answer_correctly s)"
    and "\<not> hasNoSamplesError (answer_correctly s)"
    and "challenge (answer_correctly s) \<noteq> None"
    and "currentAlbumTracks (answer_correctly s) = tracks"
    and "selectedSource (answer_correctly s) = Some album"
    and "difficulty (answer_correctly s) = d"
    and "distinct (completedAlbums (answer_correctly s))"
    and "score (answer_correctly s) = int (Suc k) * points d"
    and "playedTrackIds (answer_correctly s) \<subseteq> track_id ` set tracks"
    and "card (playedTrackIds (answer_correctly s)) = Suc k"
proof -
  from assms obtain ch where c: "challenge s = Some ch" and ct: "correctTrack ch \<in> set tracks"
    and np: "track_id (correctTrack ch) \<notin> playedTrackIds s"
    and eq: "answer_correctly s =
          run_effects (s\<lparr> isVictory := True, isVictoryRef := True,
              score := score s + points (difficulty s),
              messageKey := correctAnswer,
              isAudioPlaying := True,
              playedTrackIds := insert (track_id (correctTrack ch)) (playedTrackIds s),
              audioRef := map_option (\<lambda>a. a\<lparr> paused := False \<rparr>) (audioRef s) \<rparr>)"
    by (rule answer_correctly_step)
  from assms have m: "gameState s = PLAYING" "\<not> isQuotaError s" "\<not> hasNoSamplesError s"
    "currentAlbumTracks s = tracks" "selectedSource s = Some album" "difficulty s = d"
    "distinct (completedAlbums s)" "score s = int k * points d"
    "playedTrackIds s \<subseteq> track_id ` set tracks" "card (playedTrackIds s) = k"
    by (simp_all add: mid_album_def)
  show "isVictory (answer_correctly s)" by (simp add: eq)
  show "gameState (answer_correctly s) = PLAYING" using m(1) by (simp add: eq)
  show "\<not> isQuotaError (answer_correctly s)" using m(2) by (simp add: eq)
  show "\<not> hasNoSamplesError (answer_correctly s)" using m(3) by (simp add: eq)
  show "challenge (answer_correctly s) \<noteq> None" using c by (simp add: eq)
  show "currentAlbumTracks (answer_correctly s) = tracks" using m(4) by (simp add: eq)
  show "selectedSource (answer_correctly s) = Some album" using m(5) by (simp add: eq)
  show "difficulty (answer_correctly s) = d" using m(6) by (simp add: eq)
  show "distinct (completedAlbums (answer_correctly s))" using m(7) by (simp add: eq)
  show "score (answer_correctly s) = int (Suc k) * points d"
    using m(6,8) by (simp add: eq algebra_simps)
  show "playedTrackIds (answer_correctly s) \<subseteq> track_id ` set tracks"
    using m(9) ct by (simp add: eq)
  have "finite (playedTrackIds s)"
    using m(9) by (rule finite_subset) simp
  then show "card (playedTrackIds (answer_correctly s)) = Suc k"
    using np m(10) by (simp add: eq)
qed


lemma next_round_step:
  assumes "mid_album album tracks d k s"
  shows "step (answer_correctly s) (NextRound env)
       = run_effects (startChallenge (flags_cleared (answer_correctly s)) album False env)"
proof -
  note f = answer_correctly_facts [OF assms]
  have "enabled (answer_correctly s) (NextRound env)"
    using f(1,2,3,4,5) by (simp add: panel_shown_def error_panel_def)
  then show ?thesis
    using f(7) by (simp add: step_def nextRound_startChallenge)
qed

lemma next_round_values:
  assumes "mid_album album tracks d k s"
  shows "round_tracks (flags_cleared (answer_correctly s)) album False env = tracks"
    and "round_played (flags_cleared (answer_correctly s)) False = playedTrackIds (answer_correctly s)"
    and "remaining_tracks (flags_cleared (answer_correctly s)) album False env
           = filter (\<lambda>t. track_id t \<notin> playedTrackIds (answer_correctly s)) tracks"
    and "round_tracks (answer_correctly s) album False env = tracks"
    and "round_played (answer_correctly s) False = playedTrackIds (answer_correctly s)"
    and "remaining_tracks (answer_correctly s) album False env
           = filter (\<lambda>t. track_id t \<notin> playedTrackIds (answer_correctly s)) tracks"
  using answer_correctly_facts(6) [OF assms]
  by (simp_all add: round_tracks_def round_played_def remaining_tracks_def)

lemma unplayed_track_left:
  assumes "distinct (map track_id tracks)" and "P \<subseteq> track_id ` set tracks"
    and "card P < length tracks"
  shows "filter (\<lambda>t. track_id t \<notin> P) tracks \<noteq> []"
proof -
  have "card (track_id ` set tracks) = length tracks"
    using assms(1) distinct_card [of "map track_id tracks"] by simp
  with assms(3) have "P \<noteq> track_id ` set tracks" by auto
  with assms(2) obtain t where "t \<in> set tracks" "track_id t \<notin> P" by blast
  then show ?thesis by (auto simp: filter_empty_conv)
qed

lemma all_tracks_played:
  assumes "distinct (map track_id tracks)" and "P \<subseteq> track_id ` set tracks"
    and "card P = length tracks"
  shows "P = track_id ` set tracks \<and> filter (\<lambda>t. track_id t \<notin> P) tracks = []"
proof -
  have "card (track_id ` set tracks) = length tracks"
    using assms(1) distinct_card [of "map track_id tracks"] by simp
  with assms(2,3) have "P = track_id ` set tracks"
    by (intro card_subset_eq) simp_all
  then show ?thesis by (auto simp: filter_empty_conv)
qed

lemma next_round_open:
  assumes m: "mid_album album tracks d k s"
    and dist: "distinct (map track_id tracks)"
    and prev: "\<forall>t \<in> set tracks. has_preview t"
    and more: "Suc k < length tracks"
    and gen: "generator_answers env"
  shows "mid_album album tracks d (Suc k) (step (answer_correctly s) (NextRound env))"
proof -
  let ?s1 = "answer_correctly s"
  let ?s0 = "flags_cleared ?s1"
  let ?P = "playedTrackIds ?s1"
  let ?rem = "remaining_tracks ?s0 album False env"
  note f = answer_correctly_facts [OF m]
  note v = next_round_values [OF m]
  have st: "step ?s1 (NextRound env) = run_effects (startChallenge ?s0 album False env)"
    using m by (rule next_round_step)
  have rem: "?rem \<noteq> []"
    unfolding v(3) using dist f(11) more by (intro unplayed_track_left) (simp_all add: f(12))
  have ne: "tracks \<noteq> []" using more by auto
  from getAlbumChallenge_answers [OF ne gen, of album "difficulty ?s0"]
  obtain chal where g0: "getAlbumChallenge album tracks (difficulty ?s0) (gen_of env) = Inr chal"
    by blast
  then have g: "getAlbumChallenge album (round_tracks ?s0 album False env) (difficulty ?s0) (gen_of env) = Inr chal"
    by (simp only: v(1))
  let ?healed = "self_heal (round_played ?s0 False) ?rem env chal"
  note q = startChallenge_round [OF rem g]
  from getAlbumChallenge_Inr [OF g0]
  have gc: "correctTrack chal \<in> set tracks" and gi: "correctTrack chal \<in> set (options chal)"
    by simp_all
  have rsub: "set ?rem \<subseteq> set tracks"
    by (simp add: v)
  have rplay: "\<forall>t \<in> set ?rem. track_id t \<notin> round_played ?s0 False \<and> has_preview t"
    using prev by (simp add: v)
  have h1: "correctTrack ?healed \<in> set tracks"
    using rem rsub gc by (rule self_heal_correct_in)
  have h2: "track_id (correctTrack ?healed) \<notin> ?P"
    using self_heal_correct [OF rem rplay, of env chal] by (simp add: v)
  have h3: "track_id (correctTrack ?healed) \<in> track_id ` set (options ?healed)"
    using gi by (rule self_heal_contains)
  let ?s2 = "step ?s1 (NextRound env)"
  have a: "gameState ?s2 = PLAYING" "\<not> isQuotaError ?s2" "\<not> hasNoSamplesError ?s2"
    using q(2,6,7) by (simp_all add: st)
  have b: "\<not> isVictory ?s2" "\<not> isFiring ?s2" "\<not> isLoading ?s2"
    by (simp_all add: st)
  have c: "currentAlbumTracks ?s2 = tracks" "selectedSource ?s2 = Some album" "difficulty ?s2 = d"
    using q(4,8) f(7,8) by (simp_all add: st v)
  have ch: "challenge ?s2 = Some ?healed"
    using q(1) by (simp add: st)
  have pl: "playedTrackIds ?s2 = ?P"
    using q(3) by (simp add: st v)
  have sc: "score ?s2 = int (Suc k) * points d"
    using f(10) by (simp add: st)
  have co: "distinct (completedAlbums ?s2)"
    using q(9) f(9) by (simp add: st)
  show ?thesis
    unfolding mid_album_def
    using a b c h1 h2 h3 f(11,12) sc co by (simp add: ch pl)
qed

lemma next_round_last:
  assumes m: "mid_album album tracks d k s"
    and dist: "distinct (map track_id tracks)"
    and last: "Suc k = length tracks"
  shows "gameState (step (answer_correctly s) (NextRound env)) = SURVIVED
       \<and> playedTrackIds (step (answer_correctly s) (NextRound env)) = track_id ` set tracks
       \<and> card (playedTrackIds (step (answer_correctly s) (NextRound env))) = length tracks
       \<and> count_list (completedAlbums (step (answer_correctly s) (NextRound env))) (album_id album) = 1
       \<and> score (step (answer_correctly s) (NextRound env)) = int (length tracks) * points d"
proof -
  let ?s1 = "answer_correctly s"
  let ?s0 = "flags_cleared ?s1"
  let ?P = "playedTrackIds ?s1"
  note f = answer_correctly_facts [OF m]
  note v = next_round_values [OF m]
  have st: "step ?s1 (NextRound env) = run_effects (startChallenge ?s0 album False env)"
    using m by (rule next_round_step)
  from all_tracks_played [OF dist f(11)] f(12) last
  have all: "?P = track_id ` set tracks" and none: "filter (\<lambda>t. track_id t \<notin> ?P) tracks = []"
    by simp_all
  have rem: "remaining_tracks ?s0 album False env = []"
    using none by (simp only: v(3))
  have sel: "selectedSource ?s0 = Some album"
    using f(7) by simp
  let ?l = "loaded ?s0 album False env \<lparr> gameState := SURVIVED \<rparr>"
  have sv: "startChallenge ?s0 album False env
      = (markAlbumComplete ?l (album_id album)) \<lparr> isLoading := False \<rparr>"
    using rem sel by (simp add: startChallenge_survived)
  have ld: "distinct (completedAlbums ?l)" "playedTrackIds ?l = ?P" "score ?l = score ?s1"
    "gameState ?l = SURVIVED"
    using f(9) by (simp_all add: loaded_def)
  from markAlbumComplete_completed [OF ld(1), of "album_id album"]
  have "count_list (completedAlbums (markAlbumComplete ?l (album_id album))) (album_id album) = 1"
    by (simp add: distinct_count_one)
  then have a: "count_list (completedAlbums (step ?s1 (NextRound env))) (album_id album) = 1"
    by (simp add: st sv)
  have b: "gameState (step ?s1 (NextRound env)) = SURVIVED"
    using ld(4) by (simp add: st sv)
  have c: "playedTrackIds (step ?s1 (NextRound env)) = track_id ` set tracks"
    using ld(2) all by (simp add: st sv)
  have d: "card (playedTrackIds (step ?s1 (NextRound env))) = length tracks"
    using ld(2) f(12) last by (simp add: st sv)
  have e: "score (step ?s1 (NextRound env)) = int (length tracks) * points d"
    using f(10) last by (simp add: st)
  from a b c d e show ?thesis by (intro conjI)
qed


lemma first_round_open:
  assumes inv: "round_invariant s"
    and en: "enabled s (PickAlbum album env)"
    and tr: "tracks = round_tracks s album True env" "tracks \<noteq> []"
    and gen: "generator_answers env"
    and dc: "distinct (completedAlbums s)"
  shows "mid_album album tracks (difficulty s) 0 (step s (PickAlbum album env))"
proof -
  let ?rem = "remaining_tracks s album True env"
  have st: "step s (PickAlbum album env) = run_effects (startChallenge s album True env)"
    using en by (simp add: step_def)
  from en have gs: "gameState s = ALBUM_SELECTION" by simp
  with inv have fl: "\<not> isVictory s" "\<not> isFiring s" "score s = 0"
    by (simp_all add: round_invariant_def)
  have rp: "round_played s True = {}" by (simp add: round_played_def)
  have re: "?rem = tracks" by (simp add: remaining_tracks_def rp tr(1))
  have rem: "?rem \<noteq> []" unfolding re by (rule tr(2))
  from getAlbumChallenge_answers [OF tr(2) gen, of album "difficulty s"]
  obtain chal where g0: "getAlbumChallenge album tracks (difficulty s) (gen_of env) = Inr chal"
    by blast
  then have g: "getAlbumChallenge album (round_tracks s album True env) (difficulty s) (gen_of env) = Inr chal"
    by (simp only: tr(1))
  let ?healed = "self_heal (round_played s True) ?rem env chal"
  note q = startChallenge_round [OF rem g]
  from getAlbumChallenge_Inr [OF g0]
  have gc: "correctTrack chal \<in> set tracks" and gi: "correctTrack chal \<in> set (options chal)"
    by simp_all
  have rsub: "set ?rem \<subseteq> set tracks" by (simp only: re)
  have h1: "correctTrack ?healed \<in> set tracks"
    using rem rsub gc by (rule self_heal_correct_in)
  have h3: "track_id (correctTrack ?healed) \<in> track_id ` set (options ?healed)"
    using gi by (rule self_heal_contains)
  let ?s2 = "step s (PickAlbum album env)"
  have a: "gameState ?s2 = PLAYING" "\<not> isQuotaError ?s2" "\<not> hasNoSamplesError ?s2"
    using q(2,6,7) by (simp_all add: st)
  have b: "\<not> isVictory ?s2" "\<not> isFiring ?s2" "\<not> isLoading ?s2"
    using fl by (simp_all add: st)
  have c: "currentAlbumTracks ?s2 = tracks" "selectedSource ?s2 = Some album"
    "difficulty ?s2 = difficulty s"
    using q(4,8) by (simp_all add: st tr(1))
  have ch: "challenge ?s2 = Some ?healed"
    using q(1) by (simp add: st)
  have pl: "playedTrackIds ?s2 = {}"
    using q(3) by (simp add: st rp)
  have sc: "score ?s2 = 0"
    using fl(3) by (simp add: st)
  have co: "distinct (completedAlbums ?s2)"
    using q(9) dc by (simp add: st)
  show ?thesis
    unfolding mid_album_def
    using a b c h1 h3 sc co by (simp add: ch pl)
qed

lemma startChallenge_completed_distinct:
  assumes "distinct (completedAlbums s)"
  shows "distinct (completedAlbums (startChallenge s album isNewAlbum env))"
proof (cases rule: startChallenge_cases [of isNewAlbum s album env])
  case no_samples
  then show ?thesis using assms by (simp add: startChallenge_no_samples)
next
  case survived
  have l: "distinct (completedAlbums (loaded s album isNewAlbum env \<lparr> gameState := SURVIVED \<rparr>))"
    using assms by (simp add: loaded_def)
  show ?thesis
  proof (cases "selectedSource s")
    case None
    with survived l show ?thesis by (simp add: startChallenge_survived)
  next
    case (Some source)
    with survived markAlbumComplete_completed [OF l, of "album_id source"] show ?thesis
      by (simp add: startChallenge_survived)
  qed
next
  case (started chal)
  then show ?thesis using assms by (simp add: startChallenge_round(9))
next
  case (failed err)
  then show ?thesis using assms by (simp add: startChallenge_failed loaded_def)
qed

lemma handle_completed_distinct:
  assumes "distinct (completedAlbums s)"
  shows "distinct (completedAlbums (handle s e))"
proof (cases e)
  case (Search q resp)
  then show ?thesis using assms by (simp add: handleSearch_def Let_def)
next
  case (SetDifficulty d)
  then show ?thesis using assms by simp
next
  case (PickAlbum album env)
  then show ?thesis using assms by (simp add: startChallenge_completed_distinct)
next
  case (Answer t)
  then show ?thesis using assms by (simp add: handleAnswer_def split: option.splits)
next
  case (NextRound env)
  have "distinct (completedAlbums (flags_cleared s))" using assms by simp
  then show ?thesis
    using NextRound assms
    by (cases "selectedSource s")
      (simp_all add: nextRound_startChallenge startChallenge_completed_distinct nextRound_eq)
next
  case Replay
  then show ?thesis using assms by (simp add: handleReplay_def playSnippet_def split: option.splits)
next
  case Reset
  then show ?thesis using assms by (simp add: resetGame_def)
next
  case BackToSelection
  then show ?thesis using assms by (simp add: backToSelection_def)
next
  case BackToSearchArtist
  then show ?thesis using assms by (simp add: backToSearchArtist_def)
next
  case (OpenKeyDialog b)
  then show ?thesis using assms by (simp add: handleOpenKeyDialog_def)
next
  case (TimerFires i)
  then show ?thesis using assms by (simp add: fire_timer_def Let_def split: timer.splits)
qed

lemma step_completed_distinct:
  "distinct (completedAlbums s) \<Longrightarrow> distinct (completedAlbums (step s e))"
  by (simp add: step_def handle_completed_distinct)

lemma run_completed_distinct:
  "distinct (completedAlbums s) \<Longrightarrow> distinct (completedAlbums (run s es))"
  by (induction es rule: rev_induct) (simp_all add: run_Nil run_snoc step_completed_distinct)

lemma mount_completed: "completedAlbums (mount h c) = (case c of Some l \<Rightarrow> l | None \<Rightarrow> [])"
  by (simp add: mount_def initial_state_def)

lemma play_rounds_survives:
  assumes "mid_album album tracks d k s"
    and "distinct (map track_id tracks)"
    and "\<forall>t \<in> set tracks. has_preview t"
    and "length envs + k = length tracks"
    and "envs \<noteq> []"
    and "\<forall>x \<in> set (butlast envs). generator_answers x"
  shows "gameState (play_rounds s envs) = SURVIVED
       \<and> playedTrackIds (play_rounds s envs) = track_id ` set tracks
       \<and> card (playedTrackIds (play_rounds s envs)) = length tracks
       \<and> count_list (completedAlbums (play_rounds s envs)) (album_id album) = 1
       \<and> score (play_rounds s envs) = int (length tracks) * points d"
  using assms(1,4,5,6)
proof (induction envs arbitrary: s k)
  case Nil
  then show ?case by simp
next
  case (Cons env envs)
  show ?case
  proof (cases "envs = []")
    case True
    with Cons.prems(2) have "Suc k = length tracks" by simp
    note l = next_round_last [OF Cons.prems(1) assms(2) this, of env]
    have eq: "play_rounds s (env # envs) = step (answer_correctly s) (NextRound env)"
      using True by simp
    show ?thesis unfolding eq by (rule l)
  next
    case False
    with Cons.prems(2) have more: "Suc k < length tracks"
      by (cases envs) simp_all
    from False Cons.prems(4) have gen: "generator_answers env"
      and rest: "\<forall>x \<in> set (butlast envs). generator_answers x"
      by simp_all
    have m: "mid_album album tracks d (Suc k) (step (answer_correctly s) (NextRound env))"
      using Cons.prems(1) assms(2,3) more gen by (rule next_round_open)
    have len: "length envs + Suc k = length tracks"
      using Cons.prems(2) by simp
    note i = Cons.IH [OF m len False rest]
    have eq: "play_rounds s (env # envs) = play_rounds (step (answer_correctly s) (NextRound env)) envs"
      by simp
    show ?thesis unfolding eq by (rule i)
  qed
qed

lemma markAlbumComplete_idem:
  "markAlbumComplete (markAlbumComplete s i) i = markAlbumComplete s i"
  by (simp add: markAlbumComplete_eq)

text \<open>
  Claim C5. From any state a run reaches on the selection screen, with a completion
  ledger that came from storage without duplicates: pick an album whose lookup gives N
  playable tracks (N at least one) with pairwise distinct ids, answer N rounds correctly
  and press next round after each, the generator returning a challenge at every one of
  the N round-starts. Then the round-start after the N-th answer finds no track left:
  the game state is \<open>SURVIVED\<close>, the played ids are the N ids of the album, the album's
  id occurs exactly once in the completion ledger, and the score is N times the points
  of the difficulty. Marking an album complete a second time changes nothing.
\<close>

theorem album_played_through:
  assumes "s = run (mount h c) evs"
    and "distinct (case c of Some l \<Rightarrow> l | None \<Rightarrow> [])"
    and "enabled s (PickAlbum album env)"
    and "tracks = round_tracks s album True env"
    and "tracks \<noteq> []"
    and "distinct (map track_id tracks)"
    and "length envs = length tracks"
    and "\<forall>x \<in> set (env # butlast envs). generator_answers x"
  shows "gameState (play_rounds (step s (PickAlbum album env)) envs) = SURVIVED
       \<and> playedTrackIds (play_rounds (step s (PickAlbum album env)) envs) = track_id ` set tracks
       \<and> card (playedTrackIds (play_rounds (step s (PickAlbum album env)) envs)) = length tracks
       \<and> count_list (completedAlbums (play_rounds (step s (PickAlbum album env)) envs))
            (album_id album) = 1
       \<and> score (play_rounds (step s (PickAlbum album env)) envs)
            = int (length tracks) * points (difficulty s)
       \<and> (\<forall>st i. markAlbumComplete (markAlbumComplete st i) i = markAlbumComplete st i)"
proof -
  have inv: "round_invariant s"
    using reachable_invariant [of h c evs] by (simp add: assms(1) invariant_def)
  have dc: "distinct (completedAlbums s)"
    unfolding assms(1) using assms(2) by (intro run_completed_distinct) (simp add: mount_completed)
  from assms(8) have gen: "generator_answers env"
    and rest: "\<forall>x \<in> set (butlast envs). generator_answers x"
    by simp_all
  have m: "mid_album album tracks (difficulty s) 0 (step s (PickAlbum album env))"
    using inv assms(3,4,5) gen dc by (rule first_round_open)
  have prev: "\<forall>t \<in> set tracks. has_preview t"
    by (simp add: assms(4) round_tracks_def)
  have len: "length envs + 0 = length tracks" using assms(7) by simp
  have ne: "envs \<noteq> []" using assms(5,7) by auto
  note p = play_rounds_survives [OF m assms(6) prev len ne rest]
  have "\<forall>st i. markAlbumComplete (markAlbumComplete st i) i = markAlbumComplete st i"
    by (intro allI) (rule markAlbumComplete_idem)
  with p show ?thesis by (elim conjE) (intro conjI)

qed


lemma letters_album_facts:
  "enabled at_selection (PickAlbum sample_album offline_round)
   \<and> round_tracks at_selection sample_album True offline_round = [track_a, track_b]
   \<and> generator_answers offline_round
   \<and> distinct (map track_id [track_a, track_b])"
  by code_simp

lemma letters_album_end:
  "score (play_rounds (step at_selection (PickAlbum sample_album offline_round))
            [offline_round, offline_round]) = 200
   \<and> completedAlbums (play_rounds (step at_selection (PickAlbum sample_album offline_round))
            [offline_round, offline_round]) = [''42'']"
  by code_simp

theorem album_played_through_witness:
  "enabled at_selection (PickAlbum sample_album offline_round)
   \<and> round_tracks at_selection sample_album True offline_round = [track_a, track_b]
   \<and> generator_answers offline_round
   \<and> distinct (map track_id [track_a, track_b])
   \<and> gameState (play_rounds (step at_selection (PickAlbum sample_album offline_round))
            [offline_round, offline_round]) = SURVIVED
   \<and> card (playedTrackIds (play_rounds (step at_selection (PickAlbum sample_album offline_round))
            [offline_round, offline_round])) = length [track_a, track_b]
   \<and> count_list (completedAlbums (play_rounds (step at_selection (PickAlbum sample_album offline_round))
            [offline_round, offline_round])) (album_id sample_album) = 1
   \<and> score (play_rounds (step at_selection (PickAlbum sample_album offline_round))
            [offline_round, offline_round]) = 200"
proof -
  let ?F = "play_rounds (step at_selection (PickAlbum sample_album offline_round))
            [offline_round, offline_round]"
  note v = letters_album_facts
  from v have f1: "enabled at_selection (PickAlbum sample_album offline_round)" by (elim conjE)
  from v have f2: "round_tracks at_selection sample_album True offline_round = [track_a, track_b]"
    by (elim conjE)
  from v have f3: "generator_answers offline_round" by (elim conjE)
  from v have f4: "distinct (map track_id [track_a, track_b])" by (elim conjE)
  have r: "at_selection = run (mount None None) [Search ''letters'' letters_search]"
    by (rule at_selection_def)
  have d: "distinct (case None :: string list option of Some l \<Rightarrow> l | None \<Rightarrow> [])"
    by simp
  have ne: "[track_a, track_b] \<noteq> []" by (rule list.distinct(2))
  have len: "length [offline_round, offline_round] = length [track_a, track_b]" by simp
  have gen: "\<forall>x \<in> set (offline_round # butlast [offline_round, offline_round]). generator_answers x"
    using f3 by simp
  note t = album_played_through [OF r d f1 f2 [symmetric] ne f4 len gen]
  from t have f5: "gameState ?F = SURVIVED" by (elim conjE)
  from t have f6: "card (playedTrackIds ?F) = length [track_a, track_b]" by (elim conjE)
  from t have f7: "count_list (completedAlbums ?F) (album_id sample_album) = 1" by (elim conjE)
  from letters_album_end have f8: "score ?F = 200" by (elim conjE)
  from f1 f2 f3 f4 f5 f6 f7 f8 show ?thesis by (intro conjI)
qed


end
